theory Spec2Isabelle
  imports Main "HOL-Library.Word"
begin

section \<open>RIOC client: data model\<close>

text \<open>
  A shallow embedding of the C client in \<^verbatim>\<open>src/rioc.h\<close>, \<^verbatim>\<open>src/rioc_client.c\<close> and
  \<^verbatim>\<open>src/rioc_tls.c\<close>. Conventions:
  \<^item> a byte is an \<open>8 word\<close>; the fixed-width header fields are words of their C width;
    \<open>size_t\<close> values are \<open>nat\<close> (lengths of real buffers, far below \<open>2^64\<close>);
    C \<open>int\<close> and \<open>ssize_t\<close> return values are \<open>int\<close>;
  \<^item> structs are records; fields carry a short prefix of the struct's name, since
    several structs share field names (\<open>value_len\<close>, \<open>count\<close>, \<open>status\<close>);
  \<^item> a pointer argument that the code tests against \<open>NULL\<close> is an \<open>option\<close>
    (struct pointers), a \<open>cbuf\<close> (a buffer pointer with its length argument) or a
    \<open>bool\<close> (out-parameters: \<open>True\<close> for a non-NULL pointer);
  \<^item> the client of a batch is a record, not a pointer: \<open>rioc_batch_create\<close> stores
    the pointer it is given unchecked and \<open>rioc_batch_execute_async\<close> dereferences it,
    so a batch on a \<open>NULL\<close> client is outside the embedding;
  \<^item> the arrays inside structs (\<open>ops\<close> of a batch, \<open>key\<close> of an operation) and the
    value buffer of a batch are functions from the index; the code's guards keep
    the indices below the array sizes;
  \<^item> memory handed out by \<open>malloc\<close> is a list of cells, \<open>None\<close> for a byte that
    was never written;
  \<^item> integers are laid out in host byte order; the embedding fixes a little-endian
    host (x86-64, AArch64) and structs without padding (their fields are naturally
    aligned: 12, 16 and 8 bytes for the three headers).
\<close>

type_synonym byte = "8 word"
type_synonym cell = "byte option"

subsection \<open>Constants of \<^verbatim>\<open>rioc.h\<close>\<close>

abbreviation RIOC_SUCCESS :: int where "RIOC_SUCCESS \<equiv> 0"
abbreviation RIOC_ERR_PARAM :: int where "RIOC_ERR_PARAM \<equiv> - 1"
abbreviation RIOC_ERR_MEM :: int where "RIOC_ERR_MEM \<equiv> - 2"
abbreviation RIOC_ERR_IO :: int where "RIOC_ERR_IO \<equiv> - 3"
abbreviation RIOC_ERR_DEVICE :: int where "RIOC_ERR_DEVICE \<equiv> - 5"
abbreviation RIOC_ERR_NOENT :: int where "RIOC_ERR_NOENT \<equiv> - 6"

abbreviation RIOC_VERSION :: "16 word" where "RIOC_VERSION \<equiv> 2"
abbreviation RIOC_MAGIC :: "32 word" where "RIOC_MAGIC \<equiv> 0x524F4943"
abbreviation RIOC_MAX_KEY_SIZE :: nat where "RIOC_MAX_KEY_SIZE \<equiv> 512"
abbreviation RIOC_MAX_VALUE_SIZE :: nat where "RIOC_MAX_VALUE_SIZE \<equiv> 102400"
abbreviation RIOC_MAX_BATCH_SIZE :: nat where "RIOC_MAX_BATCH_SIZE \<equiv> 128"
abbreviation RIOC_CACHE_LINE_SIZE :: nat where "RIOC_CACHE_LINE_SIZE \<equiv> 128"

abbreviation RIOC_CMD_GET :: "16 word" where "RIOC_CMD_GET \<equiv> 1"
abbreviation RIOC_CMD_INSERT :: "16 word" where "RIOC_CMD_INSERT \<equiv> 2"
abbreviation RIOC_CMD_DELETE :: "16 word" where "RIOC_CMD_DELETE \<equiv> 3"
abbreviation RIOC_CMD_RANGE_QUERY :: "16 word" where "RIOC_CMD_RANGE_QUERY \<equiv> 6"
abbreviation RIOC_CMD_ATOMIC_INC_DEC :: "16 word" where "RIOC_CMD_ATOMIC_INC_DEC \<equiv> 7"

abbreviation RIOC_FLAG_PIPELINE :: "32 word" where "RIOC_FLAG_PIPELINE \<equiv> 0x2"
abbreviation RIOC_FLAG_MORE :: "32 word" where "RIOC_FLAG_MORE \<equiv> 0x4"

text \<open>\<open>RIOC_TLS_CHUNK_SIZE\<close> of \<^verbatim>\<open>rioc_tls.c\<close>.\<close>

abbreviation RIOC_TLS_CHUNK_SIZE :: nat where "RIOC_TLS_CHUNK_SIZE \<equiv> 16000"

text \<open>The \<open>errno\<close> values the code compares against (Linux numbering).\<close>

abbreviation RIOC_EINTR :: nat where "RIOC_EINTR \<equiv> 4"
abbreviation RIOC_EAGAIN :: nat where "RIOC_EAGAIN \<equiv> 11"
abbreviation RIOC_EWOULDBLOCK :: nat where "RIOC_EWOULDBLOCK \<equiv> 11"
abbreviation ECONNRESET :: nat where "ECONNRESET \<equiv> 104"
abbreviation EPIPE :: nat where "EPIPE \<equiv> 32"

text \<open>The results of \<open>SSL_get_error\<close> the code compares against.\<close>

abbreviation SSL_ERROR_WANT_READ :: nat where "SSL_ERROR_WANT_READ \<equiv> 2"
abbreviation SSL_ERROR_WANT_WRITE :: nat where "SSL_ERROR_WANT_WRITE \<equiv> 3"
abbreviation SSL_ERROR_SYSCALL :: nat where "SSL_ERROR_SYSCALL \<equiv> 5"
abbreviation SSL_ERROR_ZERO_RETURN :: nat where "SSL_ERROR_ZERO_RETURN \<equiv> 6"

subsection \<open>Host-order integers\<close>

fun le_bytes :: "nat \<Rightarrow> nat \<Rightarrow> byte list" where
  "le_bytes 0 v = []"
| "le_bytes (Suc n) v = of_nat (v mod 256) # le_bytes n (v div 256)"

lemma le_bytes_numeral [simp]:
  "le_bytes (numeral k) v = of_nat (v mod 256) # le_bytes (pred_numeral k) (v div 256)"
  by (simp add: numeral_eq_Suc [of k])

fun le_nat :: "byte list \<Rightarrow> nat" where
  "le_nat [] = 0"
| "le_nat (b # bs) = unat b + 256 * le_nat bs"

definition u16_bytes :: "16 word \<Rightarrow> byte list" where
  "u16_bytes w = le_bytes 2 (unat w)"

definition u32_bytes :: "32 word \<Rightarrow> byte list" where
  "u32_bytes w = le_bytes 4 (unat w)"

definition u64_bytes :: "64 word \<Rightarrow> byte list" where
  "u64_bytes w = le_bytes 8 (unat w)"

text \<open>
  The value of a \<open>size_t\<close> returned through an \<open>int\<close> (\<open>rioc_tls_read\<close>) or through a
  \<open>ssize_t\<close> (\<open>recv_all\<close>).
\<close>

definition int_of_size :: "nat \<Rightarrow> int" where
  "int_of_size n = sint (word_of_nat n :: 32 word)"

definition ssize_of_size :: "nat \<Rightarrow> int" where
  "ssize_of_size n = sint (word_of_nat n :: 64 word)"

subsection \<open>Structs\<close>

record rioc_op_header =
  oh_command :: "16 word"
  oh_key_len :: "16 word"
  oh_value_len :: "32 word"
  oh_timestamp :: "64 word"

record rioc_batch_header =
  bh_magic :: "32 word"
  bh_version :: "16 word"
  bh_count :: "16 word"
  bh_flags :: "32 word"

record rioc_response_header =
  rh_status :: "32 word"
  rh_value_len :: "32 word"

text \<open>\<open>struct rioc_tls_context\<close>: the two OpenSSL handles, as "is not NULL".\<close>

record rioc_tls_context =
  tls_ctx :: bool
  tls_ssl :: bool
  tls_is_server :: bool

record rioc_client =
  cl_fd :: int
  cl_sequence :: "64 word"
  cl_tls :: "rioc_tls_context option"

record rioc_range_result =
  rr_key :: "cell list"
  rr_key_len :: nat
  rr_value :: "cell list"
  rr_value_len :: nat

text \<open>
  \<open>value_ptr\<close> of a batch operation is one \<open>char *\<close> that the code points at three
  different things: the operation's slot of the batch's value buffer (by offset), a
  \<open>malloc\<close>ed copy of a received payload, or a \<open>malloc\<close>ed array of range results.
  \<open>Freed\<close> is a pointer to memory that has been given back with \<open>free\<close>.
\<close>

datatype value_ptr =
    Null
  | Staged nat
  | Heap "cell list"
  | Results "rioc_range_result list"
  | Freed

text \<open>
  \<open>struct rioc_response\<close> inside an operation; its \<open>value\<close> pointer is never used
  by the client and is left out, as is the unused \<open>iov\<close> array of the operation.
\<close>

record rioc_response =
  rs_value_len :: nat
  rs_status :: int

record rioc_batch_op =
  op_header :: rioc_op_header
  op_key :: "nat \<Rightarrow> byte"
  op_value_ptr :: value_ptr
  op_value_offset :: nat
  op_response :: rioc_response

record rioc_batch =
  b_client :: rioc_client
  b_batch_header :: rioc_batch_header
  b_ops :: "nat \<Rightarrow> rioc_batch_op"
  b_value_buffer :: "nat \<Rightarrow> cell"
  b_value_buffer_size :: nat
  b_value_buffer_used :: nat
  b_count :: nat
  b_iov_count :: nat
  b_flags :: "32 word"

record rioc_batch_tracker =
  t_batch :: rioc_batch
  t_completed :: int
  t_error :: int
  t_responses_received :: nat

text \<open>
  A buffer argument: the pointer and the length passed with it. \<open>Buf bs\<close> is a valid
  pointer to the bytes \<open>bs\<close> with \<open>length bs\<close> as the length argument; \<open>NullPtr n\<close>
  is a \<open>NULL\<close> pointer passed with length \<open>n\<close>.
\<close>

datatype cbuf = NullPtr nat | Buf "byte list"

fun cbuf_len :: "cbuf \<Rightarrow> nat" where
  "cbuf_len (NullPtr n) = n"
| "cbuf_len (Buf bs) = length bs"

fun cbuf_null :: "cbuf \<Rightarrow> bool" where
  "cbuf_null (NullPtr n) = True"
| "cbuf_null (Buf bs) = False"

fun cbuf_bytes :: "cbuf \<Rightarrow> byte list" where
  "cbuf_bytes (NullPtr n) = []"
| "cbuf_bytes (Buf bs) = bs"

section \<open>The world outside the program\<close>

text \<open>
  The socket and the TLS connection live outside the program. The embedding keeps them
  in a \<open>world\<close> that every call threads through:
  \<^item> \<open>tx_wire\<close> is the byte stream delivered to the peer so far (for TLS, the plaintext
    stream), \<open>rx_wire\<close> the bytes of the peer not yet read;
  \<^item> \<open>tx_plan\<close> and \<open>rx_plan\<close> script the outcomes of the next sending and receiving
    calls (\<open>send\<close>, \<open>writev\<close>, \<open>SSL_write\<close>; \<open>recv\<close>, \<open>readv\<close>, \<open>SSL_read\<close>):
    \<open>Xfer n\<close> transfers at most \<open>n\<close> bytes of what was asked, \<open>Fail e\<close> returns an
    error with \<open>errno\<close> (or the \<open>SSL_get_error\<close> code) \<open>e\<close>, and \<open>Down\<close> is a
    connection that is lost: the call fails (a send with \<open>EPIPE\<close>, a receive with
    \<open>ECONNRESET\<close>, under TLS both with \<open>SSL_ERROR_SYSCALL\<close>) and the event stays at
    the head of the script, so that every later call fails in the same way. Scripts
    are finite: once a script is used up a send takes everything it is given, and a
    receive returns what was asked as far as the peer's bytes reach; when none are
    left the peer has reset the connection, the receive fails and the script of the
    sending calls becomes \<open>[Down]\<close>;
  \<^item> \<open>res_plan\<close> scripts the outcomes of the next \<open>malloc\<close>, \<open>posix_memalign\<close> and
    \<open>pthread_create\<close> calls (\<open>False\<close> is a failure), all succeeding once it is used up;
  \<^item> \<open>errno\<close> is the C variable: only a failing call writes it;
  \<^item> \<open>io_calls\<close> counts the sending and receiving calls made.
  Socket options (\<open>TCP_CORK\<close>) and prefetch hints do not change the streams and are
  left out.
\<close>

datatype io_event = Xfer nat | Fail nat | Down

record world =
  tx_wire :: "byte list"
  rx_wire :: "byte list"
  tx_plan :: "io_event list"
  rx_plan :: "io_event list"
  res_plan :: "bool list"
  errno :: nat
  io_calls :: nat

definition acquire :: "world \<Rightarrow> bool \<times> world" where
  "acquire w = (case res_plan w of [] \<Rightarrow> (True, w) | ok # p \<Rightarrow> (ok, w \<lparr> res_plan := p \<rparr>))"

section \<open>Batch builder\<close>

definition zero_op :: rioc_batch_op where
  "zero_op = \<lparr> op_header = \<lparr> oh_command = 0, oh_key_len = 0, oh_value_len = 0, oh_timestamp = 0 \<rparr>,
               op_key = (\<lambda>i. 0),
               op_value_ptr = Null,
               op_value_offset = 0,
               op_response = \<lparr> rs_value_len = 0, rs_status = 0 \<rparr> \<rparr>"

text \<open>
  \<open>rioc_batch_create\<close>: the batch is zeroed by \<open>memset\<close>, the value buffer is fresh
  memory. \<open>None\<close> is the \<open>NULL\<close> return.
\<close>

definition rioc_batch_create :: "world \<Rightarrow> rioc_client \<Rightarrow> rioc_batch option \<times> world" where
  "rioc_batch_create w client =
     (case acquire w of
        (False, w1) \<Rightarrow> (None, w1)
      | (True, w1) \<Rightarrow>
          (case acquire w1 of
             (False, w2) \<Rightarrow> (None, w2)
           | (True, w2) \<Rightarrow>
               (Some \<lparr> b_client = client,
                       b_batch_header = \<lparr> bh_magic = RIOC_MAGIC, bh_version = RIOC_VERSION, bh_count = 0,
                                           bh_flags = or RIOC_FLAG_PIPELINE RIOC_FLAG_MORE \<rparr>,
                       b_ops = (\<lambda>i. zero_op),
                       b_value_buffer = (\<lambda>a. None),
                       b_value_buffer_size = RIOC_MAX_VALUE_SIZE * RIOC_MAX_BATCH_SIZE + RIOC_CACHE_LINE_SIZE,
                       b_value_buffer_used = 0,
                       b_count = 0,
                       b_iov_count = 0,
                       b_flags = 0 \<rparr>, w2)))"

text \<open>\<open>(x + RIOC_CACHE_LINE_SIZE - 1) & ~(RIOC_CACHE_LINE_SIZE - 1)\<close>: clear the low 7 bits.\<close>

definition aligned_offset :: "nat \<Rightarrow> nat" where
  "aligned_offset cnt =
     ((cnt * RIOC_MAX_VALUE_SIZE + RIOC_CACHE_LINE_SIZE - 1) div RIOC_CACHE_LINE_SIZE) * RIOC_CACHE_LINE_SIZE"

text \<open>\<open>memcpy\<close> of \<open>src\<close> to offset \<open>off\<close> of a buffer, and of a key into a key array.\<close>

definition buf_write :: "(nat \<Rightarrow> cell) \<Rightarrow> nat \<Rightarrow> byte list \<Rightarrow> (nat \<Rightarrow> cell)" where
  "buf_write buf off src = (\<lambda>a. if off \<le> a \<and> a < off + length src then Some (src ! (a - off)) else buf a)"

definition key_write :: "(nat \<Rightarrow> byte) \<Rightarrow> byte list \<Rightarrow> (nat \<Rightarrow> byte)" where
  "key_write arr src = (\<lambda>i. if i < length src then src ! i else arr i)"

text \<open>
  \<open>batch_add_op\<close>. The 64-byte unrolled copy loop and its tail copy are one
  \<open>memcpy\<close> of \<open>value_len\<close> bytes. The result is the return code and the batch.
\<close>

definition batch_add_op ::
  "rioc_batch option \<Rightarrow> 16 word \<Rightarrow> cbuf \<Rightarrow> cbuf \<Rightarrow> 64 word \<Rightarrow> int \<times> rioc_batch option" where
  "batch_add_op batch command key val timestamp =
     (case batch of
        None \<Rightarrow> (RIOC_ERR_PARAM, batch)
      | Some b \<Rightarrow>
          if cbuf_null key \<or> cbuf_len key > RIOC_MAX_KEY_SIZE \<or>
             (\<not> cbuf_null val \<and> cbuf_len val > RIOC_MAX_VALUE_SIZE) \<or>
             b_count b \<ge> RIOC_MAX_BATCH_SIZE
          then (RIOC_ERR_PARAM, batch)
          else
            let hdr = \<lparr> oh_command = command,
                        oh_key_len = of_nat (cbuf_len key),
                        oh_value_len = of_nat (cbuf_len val),
                        oh_timestamp = timestamp \<rparr>;
                op0 = (b_ops b (b_count b))
                        \<lparr> op_header := hdr, op_key := key_write (op_key (b_ops b (b_count b))) (cbuf_bytes key) \<rparr>
            in if \<not> cbuf_null val \<and> cbuf_len val > 0
               then
                 let off = aligned_offset (b_count b);
                     op1 = op0 \<lparr> op_value_ptr := Staged off, op_value_offset := off \<rparr>
                 in (RIOC_SUCCESS,
                     Some (b \<lparr> b_ops := (b_ops b)(b_count b := op1),
                               b_value_buffer := buf_write (b_value_buffer b) off (cbuf_bytes val),
                               b_count := b_count b + 1 \<rparr>))
               else
                 let op1 = op0 \<lparr> op_value_ptr := Null, op_value_offset := 0 \<rparr>
                 in (RIOC_SUCCESS,
                     Some (b \<lparr> b_ops := (b_ops b)(b_count b := op1),
                               b_count := b_count b + 1 \<rparr>)))"

definition rioc_batch_add_get :: "rioc_batch option \<Rightarrow> cbuf \<Rightarrow> int \<times> rioc_batch option" where
  "rioc_batch_add_get batch key = batch_add_op batch RIOC_CMD_GET key (NullPtr 0) 0"

definition rioc_batch_add_insert ::
  "rioc_batch option \<Rightarrow> cbuf \<Rightarrow> cbuf \<Rightarrow> 64 word \<Rightarrow> int \<times> rioc_batch option" where
  "rioc_batch_add_insert batch key val timestamp = batch_add_op batch RIOC_CMD_INSERT key val timestamp"

definition rioc_batch_add_delete :: "rioc_batch option \<Rightarrow> cbuf \<Rightarrow> 64 word \<Rightarrow> int \<times> rioc_batch option" where
  "rioc_batch_add_delete batch key timestamp = batch_add_op batch RIOC_CMD_DELETE key (NullPtr 0) timestamp"

definition rioc_batch_add_range_query ::
  "rioc_batch option \<Rightarrow> cbuf \<Rightarrow> cbuf \<Rightarrow> int \<times> rioc_batch option" where
  "rioc_batch_add_range_query batch start_key end_key =
     (case batch of
        None \<Rightarrow> (RIOC_ERR_PARAM, batch)
      | Some b \<Rightarrow>
          if cbuf_null start_key \<or> cbuf_null end_key \<or>
             cbuf_len start_key > RIOC_MAX_KEY_SIZE \<or> cbuf_len end_key > RIOC_MAX_KEY_SIZE \<or>
             b_count b \<ge> RIOC_MAX_BATCH_SIZE
          then (RIOC_ERR_PARAM, batch)
          else
            let hdr = \<lparr> oh_command = RIOC_CMD_RANGE_QUERY,
                        oh_key_len = of_nat (cbuf_len start_key),
                        oh_value_len = of_nat (cbuf_len end_key),
                        oh_timestamp = 0 \<rparr>;
                op0 = (b_ops b (b_count b))
                        \<lparr> op_header := hdr,
                          op_key := key_write (op_key (b_ops b (b_count b))) (cbuf_bytes start_key) \<rparr>
            in if cbuf_len end_key > 0
               then
                 let off = aligned_offset (b_count b);
                     op1 = op0 \<lparr> op_value_ptr := Staged off, op_value_offset := off \<rparr>
                 in (RIOC_SUCCESS,
                     Some (b \<lparr> b_ops := (b_ops b)(b_count b := op1),
                               b_value_buffer := buf_write (b_value_buffer b) off (cbuf_bytes end_key),
                               b_count := b_count b + 1 \<rparr>))
               else
                 let op1 = op0 \<lparr> op_value_ptr := Null, op_value_offset := 0 \<rparr>
                 in (RIOC_SUCCESS,
                     Some (b \<lparr> b_ops := (b_ops b)(b_count b := op1),
                               b_count := b_count b + 1 \<rparr>)))"

text \<open>The increment is passed as the 8 bytes of the \<open>int64_t\<close> argument.\<close>

definition rioc_batch_add_atomic_inc_dec ::
  "rioc_batch option \<Rightarrow> cbuf \<Rightarrow> 64 word \<Rightarrow> 64 word \<Rightarrow> int \<times> rioc_batch option" where
  "rioc_batch_add_atomic_inc_dec batch key increment timestamp =
     batch_add_op batch RIOC_CMD_ATOMIC_INC_DEC key (Buf (u64_bytes increment)) timestamp"

section \<open>Result access\<close>

text \<open>
  \<open>rioc_batch_get_response_async\<close>: the return code and, where the code writes the two
  out-parameters, the pointer and length written to them.
\<close>

definition rioc_batch_get_response_async ::
  "rioc_batch_tracker option \<Rightarrow> nat \<Rightarrow> bool \<Rightarrow> bool \<Rightarrow> int \<times> (value_ptr \<times> nat) option" where
  "rioc_batch_get_response_async tracker index value_out value_len_out =
     (case tracker of
        None \<Rightarrow> (RIOC_ERR_PARAM, None)
      | Some t \<Rightarrow>
          if \<not> value_out \<or> \<not> value_len_out \<or> index \<ge> b_count (t_batch t)
          then (RIOC_ERR_PARAM, None)
          else if index \<ge> t_responses_received t
          then (RIOC_ERR_IO, None)
          else
            let op = b_ops (t_batch t) index
            in (rs_status (op_response op), Some (op_value_ptr op, rs_value_len (op_response op))))"


section \<open>The transport: system calls\<close>

text \<open>\<open>send\<close> and \<open>writev\<close> on the socket, given the bytes offered.\<close>

definition sys_send :: "world \<Rightarrow> byte list \<Rightarrow> int \<times> world" where
  "sys_send w bs =
     (case tx_plan w of
        [] \<Rightarrow> (int (length bs), w \<lparr> tx_wire := tx_wire w @ bs, io_calls := io_calls w + 1 \<rparr>)
      | Xfer n # p \<Rightarrow>
          (int (min n (length bs)),
           w \<lparr> tx_wire := tx_wire w @ take n bs, tx_plan := p, io_calls := io_calls w + 1 \<rparr>)
      | Fail e # p \<Rightarrow> (- 1, w \<lparr> errno := e, tx_plan := p, io_calls := io_calls w + 1 \<rparr>)
      | Down # p \<Rightarrow> (- 1, w \<lparr> errno := EPIPE, io_calls := io_calls w + 1 \<rparr>))"

text \<open>\<open>recv\<close> and \<open>readv\<close> on the socket: the return value and the bytes stored.\<close>

definition sys_recv :: "world \<Rightarrow> nat \<Rightarrow> int \<times> byte list \<times> world" where
  "sys_recv w len =
     (case rx_plan w of
        [] \<Rightarrow>
          if rx_wire w = [] \<and> len > 0
          then (- 1, [], w \<lparr> errno := ECONNRESET, tx_plan := [Down], io_calls := io_calls w + 1 \<rparr>)
          else (int (length (take len (rx_wire w))), take len (rx_wire w),
                w \<lparr> rx_wire := drop len (rx_wire w), io_calls := io_calls w + 1 \<rparr>)
      | Xfer n # p \<Rightarrow>
          (int (length (take (min n len) (rx_wire w))), take (min n len) (rx_wire w),
           w \<lparr> rx_wire := drop (min n len) (rx_wire w), rx_plan := p, io_calls := io_calls w + 1 \<rparr>)
      | Fail e # p \<Rightarrow> (- 1, [], w \<lparr> errno := e, rx_plan := p, io_calls := io_calls w + 1 \<rparr>)
      | Down # p \<Rightarrow>
          (- 1, [], w \<lparr> errno := ECONNRESET, tx_plan := [Down], io_calls := io_calls w + 1 \<rparr>))"

text \<open>
  \<open>SSL_write\<close> and \<open>SSL_read\<close>: the return value, what \<open>SSL_get_error\<close> says about it
  and, for a read, the bytes stored. A transfer of no bytes is the return value 0.
\<close>

definition ssl_write :: "world \<Rightarrow> byte list \<Rightarrow> int \<times> nat \<times> world" where
  "ssl_write w bs =
     (case tx_plan w of
        [] \<Rightarrow> (int (length bs), if bs = [] then SSL_ERROR_ZERO_RETURN else 0,
               w \<lparr> tx_wire := tx_wire w @ bs, io_calls := io_calls w + 1 \<rparr>)
      | Xfer n # p \<Rightarrow>
          (int (min n (length bs)), if min n (length bs) = 0 then SSL_ERROR_ZERO_RETURN else 0,
           w \<lparr> tx_wire := tx_wire w @ take n bs, tx_plan := p, io_calls := io_calls w + 1 \<rparr>)
      | Fail e # p \<Rightarrow> (- 1, e, w \<lparr> tx_plan := p, io_calls := io_calls w + 1 \<rparr>)
      | Down # p \<Rightarrow> (- 1, SSL_ERROR_SYSCALL, w \<lparr> io_calls := io_calls w + 1 \<rparr>))"

definition ssl_read :: "world \<Rightarrow> nat \<Rightarrow> int \<times> nat \<times> byte list \<times> world" where
  "ssl_read w len =
     (case rx_plan w of
        [] \<Rightarrow>
          if len = 0 then (- 1, SSL_ERROR_SYSCALL, [], w \<lparr> io_calls := io_calls w + 1 \<rparr>)
          else if rx_wire w = []
          then (- 1, SSL_ERROR_SYSCALL, [], w \<lparr> tx_plan := [Down], io_calls := io_calls w + 1 \<rparr>)
          else (int (length (take len (rx_wire w))), 0, take len (rx_wire w),
                w \<lparr> rx_wire := drop len (rx_wire w), io_calls := io_calls w + 1 \<rparr>)
      | Xfer n # p \<Rightarrow>
          (int (length (take (min n len) (rx_wire w))),
           if take (min n len) (rx_wire w) = [] then SSL_ERROR_ZERO_RETURN else 0,
           take (min n len) (rx_wire w),
           w \<lparr> rx_wire := drop (min n len) (rx_wire w), rx_plan := p, io_calls := io_calls w + 1 \<rparr>)
      | Fail e # p \<Rightarrow> (- 1, e, [], w \<lparr> rx_plan := p, io_calls := io_calls w + 1 \<rparr>)
      | Down # p \<Rightarrow>
          (- 1, SSL_ERROR_SYSCALL, [], w \<lparr> tx_plan := [Down], io_calls := io_calls w + 1 \<rparr>))"

subsection \<open>\<^verbatim>\<open>rioc_tls.c\<close>: \<open>rioc_tls_write\<close>, \<open>rioc_tls_read\<close>, \<open>rioc_tls_writev\<close>\<close>

lemma ssl_write_plan:
  "ssl_write w bs = (ret, err, w') \<Longrightarrow>
     length (tx_plan w') \<le> length (tx_plan w) \<and> ret \<le> int (length bs) \<and>
     (ret \<le> 0 \<longrightarrow> bs \<noteq> [] \<longrightarrow> err = SSL_ERROR_WANT_READ \<or> err = SSL_ERROR_WANT_WRITE \<longrightarrow>
        length (tx_plan w') < length (tx_plan w))"
  by (auto simp: ssl_write_def split: list.splits io_event.splits if_splits)

function tls_write_loop :: "world \<Rightarrow> byte list \<Rightarrow> nat \<Rightarrow> int \<times> world" where
  "tls_write_loop w buf total_written =
     (if total_written < length buf then
        let remaining = length buf - total_written;
            chunk_size = (if remaining > RIOC_TLS_CHUNK_SIZE then RIOC_TLS_CHUNK_SIZE else remaining)
        in case ssl_write w (take chunk_size (drop total_written buf)) of
             (ret, err, w') \<Rightarrow>
               if ret \<le> 0 then
                 (if err = SSL_ERROR_WANT_READ \<or> err = SSL_ERROR_WANT_WRITE
                  then tls_write_loop w' buf total_written
                  else (RIOC_ERR_IO, w'))
               else tls_write_loop w' buf (total_written + nat ret)
      else (int total_written, w))"
  by pat_completeness auto
termination
  apply (relation "measure (\<lambda>(w, buf, tw). length (tx_plan w) + (length buf - tw))")
    apply simp
   apply (auto dest!: ssl_write_plan [OF sym] split: if_splits)
  done

declare tls_write_loop.simps [simp del]

definition rioc_tls_write :: "rioc_tls_context option \<Rightarrow> world \<Rightarrow> cbuf \<Rightarrow> int \<times> world" where
  "rioc_tls_write tls w buf =
     (case tls of
        None \<Rightarrow> (RIOC_ERR_PARAM, w)
      | Some t \<Rightarrow>
          if \<not> tls_ssl t \<or> cbuf_null buf then (RIOC_ERR_PARAM, w)
          else tls_write_loop w (cbuf_bytes buf) 0)"


lemma ssl_read_plan:
  "ssl_read w len = (ret, err, bs, w') \<Longrightarrow>
     length (rx_plan w') \<le> length (rx_plan w) \<and> length bs \<le> len \<and>
     (0 < ret \<longrightarrow> ret = int (length bs) \<and> 0 < length bs) \<and>
     (ret \<le> 0 \<longrightarrow> err = SSL_ERROR_WANT_READ \<or> err = SSL_ERROR_WANT_WRITE \<longrightarrow>
        length (rx_plan w') < length (rx_plan w))"
  by (auto simp: ssl_read_def split: list.splits io_event.splits if_splits)

text \<open>
  \<open>rioc_tls_read\<close>: the return value and the bytes stored at the start of \<open>buf\<close>.
  The buffer pointer is never \<open>NULL\<close> at the client's calls; \<open>buf_ok\<close> is its test.
\<close>

function tls_read_loop :: "world \<Rightarrow> nat \<Rightarrow> byte list \<Rightarrow> int \<times> byte list \<times> world" where
  "tls_read_loop w len got =
     (if length got < len then
        let remaining = len - length got;
            chunk_size = (if remaining > RIOC_TLS_CHUNK_SIZE then RIOC_TLS_CHUNK_SIZE else remaining)
        in case ssl_read w chunk_size of
             (ret, err, bs, w') \<Rightarrow>
               if ret \<le> 0 then
                 (if err = SSL_ERROR_WANT_READ \<or> err = SSL_ERROR_WANT_WRITE
                  then tls_read_loop w' len got
                  else (RIOC_ERR_IO, got, w'))
               else tls_read_loop w' len (got @ bs)
      else (int_of_size (length got), got, w))"
  by pat_completeness auto
termination
proof (relation "measure (\<lambda>(w, len, got). length (rx_plan w) + (len - length got))", goal_cases)
  case 1
  show ?case by simp
next
  case (2 w len got x xa xb y xc ya xd yb)
  then have "ssl_read w xa = (xb, xc, xd, yb)" by simp
  from ssl_read_plan [OF this] 2 show ?case by (auto split: if_splits)
next
  case (3 w len got x xa xb y xc ya xd yb)
  then have eq: "ssl_read w xa = (xb, xc, xd, yb)" by simp
  from 3 have "0 < xb" by simp
  with ssl_read_plan [OF eq]
  have a: "length (rx_plan yb) \<le> length (rx_plan w)" "length xd \<le> xa" "0 < length xd" by auto
  from 3 have "xa \<le> len - length got" "length got < len" by (auto split: if_splits)
  with a have "length (rx_plan yb) + (len - (length got + length xd)) < length (rx_plan w) + (len - length got)"
    by arith
  then show ?case by simp
qed

declare tls_read_loop.simps [simp del]

definition rioc_tls_read ::
  "rioc_tls_context option \<Rightarrow> world \<Rightarrow> bool \<Rightarrow> nat \<Rightarrow> int \<times> byte list \<times> world" where
  "rioc_tls_read tls w buf_ok len =
     (case tls of
        None \<Rightarrow> (RIOC_ERR_PARAM, [], w)
      | Some t \<Rightarrow>
          if \<not> tls_ssl t \<or> \<not> buf_ok then (RIOC_ERR_PARAM, [], w)
          else tls_read_loop w len [])"

text \<open>
  \<open>rioc_tls_writev\<close>. \<open>chunk\<close> is the used part of \<open>chunk_buffer\<close> (\<open>chunk_used\<close> is its
  length, always below the chunk size when the loop body starts). The inner loop
  returns \<open>Inl ret\<close> where the code returns from the function.
\<close>

function tls_writev_inner ::
  "rioc_tls_context option \<Rightarrow> world \<Rightarrow> byte list \<Rightarrow> int \<Rightarrow> bool \<Rightarrow> byte list \<Rightarrow> nat \<Rightarrow>
     (int + byte list \<times> int) \<times> world" where
  "tls_writev_inner tls w chunk tot is_last data offset =
     (if length data - offset > 0 then
        let remaining = length data - offset;
            can_add = RIOC_TLS_CHUNK_SIZE - length chunk;
            to_add = (if remaining > can_add then can_add else remaining)
        in if to_add = can_add \<or> (is_last \<and> remaining = to_add) then
             (case rioc_tls_write tls w (Buf (chunk @ take to_add (drop offset data))) of
                (ret, w') \<Rightarrow>
                  if ret < 0 then (Inl ret, w')
                  else tls_writev_inner tls w' [] (tot + ret) is_last data (offset + to_add))
           else tls_writev_inner tls w (chunk @ take to_add (drop offset data)) tot is_last data
                  (offset + to_add)
      else (Inr (chunk, tot), w))"
  by pat_completeness auto
termination
  apply (relation "measure (\<lambda>(tls, w, chunk, tot, is_last, data, offset).
            2 * (length data - offset) + (if length chunk \<ge> RIOC_TLS_CHUNK_SIZE then 1 else 0))")
    apply simp
   apply (auto split: if_splits)
  done

declare tls_writev_inner.simps [simp del]

fun tls_writev_outer ::
  "rioc_tls_context option \<Rightarrow> world \<Rightarrow> byte list \<Rightarrow> int \<Rightarrow> byte list list \<Rightarrow>
     (int + byte list \<times> int) \<times> world" where
  "tls_writev_outer tls w chunk tot [] = (Inr (chunk, tot), w)"
| "tls_writev_outer tls w chunk tot (d # ds) =
     (case tls_writev_inner tls w chunk tot (ds = []) d 0 of
        (Inl ret, w') \<Rightarrow> (Inl ret, w')
      | (Inr (chunk', tot'), w') \<Rightarrow> tls_writev_outer tls w' chunk' tot' ds)"

text \<open>The iovec array is \<open>None\<close> for a \<open>NULL\<close> pointer; \<open>iovcnt\<close> is its length.\<close>

definition rioc_tls_writev ::
  "rioc_tls_context option \<Rightarrow> world \<Rightarrow> byte list list option \<Rightarrow> int \<times> world" where
  "rioc_tls_writev tls w iov =
     (case tls of
        None \<Rightarrow> (RIOC_ERR_PARAM, w)
      | Some t \<Rightarrow>
          (case iov of
             None \<Rightarrow> (RIOC_ERR_PARAM, w)
           | Some ds \<Rightarrow>
               if \<not> tls_ssl t \<or> length ds \<le> 0 then (RIOC_ERR_PARAM, w)
               else
                 (case tls_writev_outer tls w [] 0 ds of
                    (Inl ret, w') \<Rightarrow> (ret, w')
                  | (Inr (chunk, tot), w') \<Rightarrow>
                      if length chunk > 0 then
                        (case rioc_tls_write tls w' (Buf chunk) of
                           (ret, w'') \<Rightarrow> if ret < 0 then (ret, w'') else (tot + ret, w''))
                      else (tot, w'))))"

subsection \<open>\<^verbatim>\<open>rioc_client.c\<close>: \<open>writev_all\<close> and \<open>recv_all\<close>\<close>

lemma sys_send_plan:
  "sys_send w bs = (n, w') \<Longrightarrow>
     length (tx_plan w') \<le> length (tx_plan w) \<and> n \<le> int (length bs) \<and>
     (n \<le> 0 \<longrightarrow> bs \<noteq> [] \<longrightarrow> errno w' = RIOC_EINTR \<or> errno w' = RIOC_EAGAIN \<longrightarrow>
        length (tx_plan w') < length (tx_plan w))"
  by (auto simp: sys_send_def split: list.splits io_event.splits if_splits)

text \<open>The coalescing path of \<open>writev_all\<close>: the send loop over \<open>stack_buffer\<close>.\<close>

function writev_small_loop :: "world \<Rightarrow> byte list \<Rightarrow> nat \<Rightarrow> int \<times> world" where
  "writev_small_loop w buf sent =
     (if sent < length buf then
        (case sys_send w (drop sent buf) of
           (n, w') \<Rightarrow>
             if n \<le> 0 then
               (if errno w' = RIOC_EINTR then writev_small_loop w' buf sent
                else if errno w' = RIOC_EAGAIN \<or> errno w' = RIOC_EWOULDBLOCK
                then writev_small_loop w' buf sent
                else (- 1, w'))
             else writev_small_loop w' buf (sent + nat n))
      else (int sent, w))"
  by pat_completeness auto
termination
  apply (relation "measure (\<lambda>(w, buf, sent). length (tx_plan w) + (length buf - sent))")
    apply simp
   apply (auto dest!: sys_send_plan [OF sym] split: if_splits)
  done

declare writev_small_loop.simps [simp del]

text \<open>
  The update of the iovec array after \<open>writev\<close> took \<open>processed\<close> bytes: whole
  entries are dropped while bytes remain to account for, a partly written entry is
  shortened.
\<close>

fun iov_advance :: "byte list list \<Rightarrow> nat \<Rightarrow> byte list list" where
  "iov_advance [] processed = []"
| "iov_advance (v # vs) processed =
     (if processed > 0 then
        (if processed \<ge> length v then iov_advance vs (processed - length v)
         else drop processed v # vs)
      else v # vs)"

text \<open>
  The \<open>writev\<close> loop of \<open>writev_all\<close>. It need not end: with only empty entries left,
  \<open>writev\<close> returns 0 without touching \<open>errno\<close>, and the loop goes on for as long as
  \<open>errno\<close> holds \<open>EINTR\<close> or \<open>EAGAIN\<close>. \<open>None\<close> is the run that never returns.
\<close>

partial_function (option) writev_loop :: "world \<Rightarrow> byte list list \<Rightarrow> nat \<Rightarrow> (int \<times> world) option" where
  "writev_loop w curr_iov tot =
     (if length curr_iov > 0 then
        (case sys_send w (concat curr_iov) of
           (n, w') \<Rightarrow>
             if n \<le> 0 then
               (if errno w' = RIOC_EINTR then writev_loop w' curr_iov tot
                else if errno w' = RIOC_EAGAIN \<or> errno w' = RIOC_EWOULDBLOCK
                then writev_loop w' curr_iov tot
                else Some (- 1, w'))
             else writev_loop w' (iov_advance curr_iov (nat n)) (tot + nat n))
      else Some (int tot, w))"

declare writev_loop.simps [code]

definition writev_all :: "world \<Rightarrow> byte list list \<Rightarrow> (int \<times> world) option" where
  "writev_all w iov =
     (let total_size = length (concat iov)
      in if total_size \<le> 4096 then Some (writev_small_loop w (concat iov) 0)
         else writev_loop w iov 0)"

lemma sys_recv_plan:
  "sys_recv w len = (n, bs, w') \<Longrightarrow>
     length (rx_plan w') \<le> length (rx_plan w) \<and> length bs \<le> len \<and>
     (0 < n \<longrightarrow> n = int (length bs) \<and> 0 < length bs) \<and>
     (0 < len \<longrightarrow> n \<le> 0 \<longrightarrow> errno w' = RIOC_EINTR \<or> errno w' = RIOC_EAGAIN \<longrightarrow>
        length (rx_plan w') < length (rx_plan w))"
  by (auto simp: sys_recv_def min_def split: list.splits io_event.splits if_splits)

text \<open>
  \<open>rioc_recv\<close> is \<open>recv\<close> (with \<open>MSG_WAITALL\<close>), one call of \<open>sys_recv\<close>. The loop of
  \<open>recv_all\<close> for more than 4096 bytes reads with \<open>readv\<close> in chunks of at most 65536.
\<close>

function recv_all_loop :: "world \<Rightarrow> nat \<Rightarrow> byte list \<Rightarrow> int \<times> byte list \<times> world" where
  "recv_all_loop w len got =
     (if len - length got > 0 then
        let remaining = len - length got;
            chunk_size = (if remaining > 65536 then 65536 else remaining)
        in case sys_recv w chunk_size of
             (n, bs, w') \<Rightarrow>
               if n \<le> 0 then
                 (if errno w' = RIOC_EINTR then recv_all_loop w' len got
                  else if errno w' = RIOC_EAGAIN \<or> errno w' = RIOC_EWOULDBLOCK
                  then recv_all_loop w' len got
                  else (- 1, got, w'))
               else recv_all_loop w' len (got @ bs)
      else (ssize_of_size len, got, w))"
  by pat_completeness auto
termination
proof (relation "measure (\<lambda>(w, len, got). length (rx_plan w) + (len - length got))", goal_cases)
  case 1
  show ?case by simp
next
  case (2 w len got x xa xb y xc ya)
  then have "sys_recv w xa = (xb, xc, ya)" by simp
  from sys_recv_plan [OF this] 2 show ?case by (auto split: if_splits)
next
  case (3 w len got x xa xb y xc ya)
  then have "sys_recv w xa = (xb, xc, ya)" by simp
  from sys_recv_plan [OF this] 3 show ?case by (auto split: if_splits)
next
  case (4 w len got x xa xb y xc ya)
  then have eq: "sys_recv w xa = (xb, xc, ya)" by simp
  from 4 have "0 < xb" by simp
  with sys_recv_plan [OF eq]
  have a: "length (rx_plan ya) \<le> length (rx_plan w)" "length xc \<le> xa" "0 < length xc" by auto
  from 4 have "xa \<le> len - length got" "length got < len" by (auto split: if_splits)
  with a have "length (rx_plan ya) + (len - (length got + length xc)) < length (rx_plan w) + (len - length got)"
    by arith
  then show ?case by simp
qed

declare recv_all_loop.simps [simp del]

definition recv_all :: "world \<Rightarrow> nat \<Rightarrow> int \<times> byte list \<times> world" where
  "recv_all w len =
     (if len \<le> 4096 then sys_recv w len
      else recv_all_loop w len [])"


section \<open>Framing\<close>

definition batch_header_bytes :: "rioc_batch_header \<Rightarrow> byte list" where
  "batch_header_bytes h =
     u32_bytes (bh_magic h) @ u16_bytes (bh_version h) @ u16_bytes (bh_count h) @ u32_bytes (bh_flags h)"

definition op_header_bytes :: "rioc_op_header \<Rightarrow> byte list" where
  "op_header_bytes h =
     u16_bytes (oh_command h) @ u16_bytes (oh_key_len h) @ u32_bytes (oh_value_len h) @
     u64_bytes (oh_timestamp h)"

definition response_header_bytes :: "rioc_response_header \<Rightarrow> byte list" where
  "response_header_bytes h = u32_bytes (rh_status h) @ u32_bytes (rh_value_len h)"

text \<open>The 8 bytes received into a \<open>struct rioc_response_header\<close>, read as the struct.\<close>

definition response_header_of :: "byte list \<Rightarrow> rioc_response_header" where
  "response_header_of bs =
     \<lparr> rh_status = of_nat (le_nat (take 4 bs)), rh_value_len = of_nat (le_nat (take 4 (drop 4 bs))) \<rparr>"

section \<open>Sending\<close>

lemma tls_write_loop_ret:
  "tls_write_loop w buf tw = (r, w') \<Longrightarrow> tw \<le> length buf \<Longrightarrow> r = RIOC_ERR_IO \<or> r = int (length buf)"
proof (induction w buf tw rule: tls_write_loop.induct)
  case (1 w buf tw)
  show ?case
  proof (cases "tw < length buf")
    case False
    with 1(3,4) show ?thesis by (simp add: tls_write_loop.simps [of w buf tw])
  next
    case True
    let ?cs = "if length buf - tw > RIOC_TLS_CHUNK_SIZE then RIOC_TLS_CHUNK_SIZE else length buf - tw"
    obtain ret err w1 where sw: "ssl_write w (take ?cs (drop tw buf)) = (ret, err, w1)"
      by (cases "ssl_write w (take ?cs (drop tw buf))") auto
    from ssl_write_plan [OF sw] True have le: "ret \<le> int (length buf - tw)"
      by (auto split: if_splits)
    show ?thesis
    proof (cases "ret \<le> 0")
      case r0: True
      show ?thesis
      proof (cases "err = SSL_ERROR_WANT_READ \<or> err = SSL_ERROR_WANT_WRITE")
        case True
        with r0 sw \<open>tw < length buf\<close> 1(3)
        have "tls_write_loop w1 buf tw = (r, w')"
          by (simp add: tls_write_loop.simps [of w buf tw] Let_def)
        from 1(1) [OF \<open>tw < length buf\<close> refl refl sw [symmetric] refl r0 True this 1(4)]
        show ?thesis .
      next
        case False
        with r0 sw \<open>tw < length buf\<close> 1(3) show ?thesis
          by (auto simp add: tls_write_loop.simps [of w buf tw] Let_def)
      qed
    next
      case r1: False
      with sw \<open>tw < length buf\<close> 1(3)
      have call: "tls_write_loop w1 buf (tw + nat ret) = (r, w')"
        by (simp add: tls_write_loop.simps [of w buf tw] Let_def)
      from le r1 have "tw + nat ret \<le> length buf" by linarith
      from 1(2) [OF \<open>tw < length buf\<close> refl refl sw [symmetric] refl r1 call this]
      show ?thesis .
    qed
  qed
qed

lemma rioc_tls_write_ret:
  "rioc_tls_write tls w buf = (r, w') \<Longrightarrow>
     r = RIOC_ERR_PARAM \<or> r = RIOC_ERR_IO \<or> r = int (length (cbuf_bytes buf))"
  by (auto simp: rioc_tls_write_def split: option.splits if_splits dest: tls_write_loop_ret)

text \<open>
  The loop that pushes one buffer through \<open>rioc_tls_write\<close>; the code has it three
  times (in \<open>send_op\<close> for the coalesced buffer and for each iovec entry, and in
  \<open>rioc_range_query\<close>). It returns \<open>RIOC_ERR_IO\<close> where the code returns from the
  function, and \<open>RIOC_SUCCESS\<close> when the loop is left.
\<close>

function tls_send_buf :: "rioc_tls_context option \<Rightarrow> world \<Rightarrow> byte list \<Rightarrow> nat \<Rightarrow> int \<times> world" where
  "tls_send_buf tls w buf sent =
     (if sent < length buf then
        (case rioc_tls_write tls w (Buf (drop sent buf)) of
           (n, w') \<Rightarrow>
             if n \<le> 0 then
               (if n = - int RIOC_EAGAIN then tls_send_buf tls w' buf sent
                else (RIOC_ERR_IO, w'))
             else tls_send_buf tls w' buf (sent + nat n))
      else (RIOC_SUCCESS, w))"
  by pat_completeness auto
termination
  apply (relation "measure (\<lambda>(tls, w, buf, sent). length buf - sent)")
    apply simp
   apply (auto dest!: rioc_tls_write_ret [OF sym])
  done

declare tls_send_buf.simps [simp del]

fun tls_send_iovs :: "rioc_tls_context option \<Rightarrow> world \<Rightarrow> byte list list \<Rightarrow> int \<times> world" where
  "tls_send_iovs tls w [] = (RIOC_SUCCESS, w)"
| "tls_send_iovs tls w (d # ds) =
     (case tls_send_buf tls w d 0 of
        (r, w') \<Rightarrow> if r \<noteq> RIOC_SUCCESS then (r, w') else tls_send_iovs tls w' ds)"

text \<open>The plain send loop of \<open>send_op\<close>: only \<open>EINTR\<close> is retried.\<close>

function send_op_plain_loop :: "world \<Rightarrow> byte list \<Rightarrow> nat \<Rightarrow> int \<times> world" where
  "send_op_plain_loop w buf sent =
     (if sent < length buf then
        (case sys_send w (drop sent buf) of
           (n, w') \<Rightarrow>
             if n \<le> 0 then
               (if errno w' = RIOC_EINTR then send_op_plain_loop w' buf sent
                else (RIOC_ERR_IO, w'))
             else send_op_plain_loop w' buf (sent + nat n))
      else (RIOC_SUCCESS, w))"
  by pat_completeness auto
termination
  apply (relation "measure (\<lambda>(w, buf, sent). length (tx_plan w) + (length buf - sent))")
    apply simp
   apply (auto dest!: sys_send_plan [OF sym] split: if_splits)
  done

declare send_op_plain_loop.simps [simp del]

text \<open>
  \<open>send_op\<close>. Its callers have checked that \<open>client\<close> and \<open>key\<close> are not \<open>NULL\<close>. The
  outer \<open>option\<close> is \<open>None\<close> when \<open>writev_all\<close> never returns.
\<close>

definition send_op ::
  "rioc_client \<Rightarrow> world \<Rightarrow> 16 word \<Rightarrow> cbuf \<Rightarrow> cbuf \<Rightarrow> 64 word \<Rightarrow> (int \<times> world) option" where
  "send_op client w command key val timestamp =
     (let batch_header = \<lparr> bh_magic = RIOC_MAGIC, bh_version = RIOC_VERSION, bh_count = 1,
                           bh_flags = or RIOC_FLAG_PIPELINE RIOC_FLAG_MORE \<rparr>;
          op_header = \<lparr> oh_command = command, oh_key_len = of_nat (cbuf_len key),
                        oh_value_len = of_nat (cbuf_len val), oh_timestamp = timestamp \<rparr>;
          iovs = [batch_header_bytes batch_header, op_header_bytes op_header, cbuf_bytes key] @
                 (if \<not> cbuf_null val \<and> cbuf_len val > 0 then [cbuf_bytes val] else []);
          total_size = length (concat iovs)
      in if total_size \<le> 4096 then
           (case cl_tls client of
              Some t \<Rightarrow> Some (tls_send_buf (Some t) w (concat iovs) 0)
            | None \<Rightarrow> Some (send_op_plain_loop w (concat iovs) 0))
         else
           (case cl_tls client of
              Some t \<Rightarrow> Some (tls_send_iovs (Some t) w iovs)
            | None \<Rightarrow>
                (case writev_all w iovs of
                   None \<Rightarrow> None
                 | Some (n, w') \<Rightarrow>
                     Some (if n \<ge> 0 \<and> nat n = total_size then RIOC_SUCCESS else RIOC_ERR_IO, w'))))"

subsection \<open>Batch submission\<close>

text \<open>
  The bytes an iovec entry of \<open>len\<close> bytes at \<open>value_ptr\<close> stands for. A byte that was
  never written, and the memory of a result array or of a freed block (which the
  embedding does not lay out), read as 0; a batch that was not submitted before only points at bytes that the
  add functions staged.
\<close>

definition cell_byte :: "cell \<Rightarrow> byte" where
  "cell_byte c = (case c of Some b \<Rightarrow> b | None \<Rightarrow> 0)"

fun deref_value :: "(nat \<Rightarrow> cell) \<Rightarrow> value_ptr \<Rightarrow> nat \<Rightarrow> byte list" where
  "deref_value vb Null len = []"
| "deref_value vb (Staged off) len = map (\<lambda>i. cell_byte (vb (off + i))) [0..<len]"
| "deref_value vb (Heap cs) len = map (\<lambda>i. cell_byte (if i < length cs then cs ! i else None)) [0..<len]"
| "deref_value vb (Results rs) len = replicate len 0"
| "deref_value vb Freed len = replicate len 0"

definition op_iovs :: "(nat \<Rightarrow> cell) \<Rightarrow> rioc_batch_op \<Rightarrow> byte list list" where
  "op_iovs vb op =
     [op_header_bytes (op_header op), map (op_key op) [0..<unat (oh_key_len (op_header op))]] @
     (if op_value_ptr op \<noteq> Null
      then [deref_value vb (op_value_ptr op) (unat (oh_value_len (op_header op)))]
      else [])"

definition batch_iovs :: "rioc_batch \<Rightarrow> byte list list" where
  "batch_iovs b =
     batch_header_bytes (b_batch_header b) #
     concat (map (\<lambda>i. op_iovs (b_value_buffer b) (b_ops b i)) [0..<b_count b])"

text \<open>
  \<open>rioc_batch_execute_async\<close>: the tracker (\<open>None\<close> for \<open>NULL\<close>), the batch, whose
  header count the call has set, and the world; the response thread it starts is
  \<open>response_thread_func\<close> below. The outer \<open>option\<close> is \<open>None\<close> when \<open>writev_all\<close> never
  returns.
\<close>

definition start_thread :: "world \<Rightarrow> rioc_batch_tracker \<Rightarrow> rioc_batch_tracker option \<times> world" where
  "start_thread w tracker = (case acquire w of (False, w') \<Rightarrow> (None, w') | (True, w') \<Rightarrow> (Some tracker, w'))"

definition rioc_batch_execute_async ::
  "world \<Rightarrow> rioc_batch option \<Rightarrow> (rioc_batch_tracker option \<times> rioc_batch option \<times> world) option" where
  "rioc_batch_execute_async w batch =
     (case batch of
        None \<Rightarrow> Some (None, batch, w)
      | Some b \<Rightarrow>
          if b_count b = 0 then Some (None, batch, w)
          else
            (case acquire w of
               (False, w1) \<Rightarrow> Some (None, batch, w1)
             | (True, w1) \<Rightarrow>
                 let b' = b \<lparr> b_batch_header := (b_batch_header b) \<lparr> bh_count := of_nat (b_count b) \<rparr> \<rparr>;
                     tracker = \<lparr> t_batch = b', t_completed = 0, t_error = 0, t_responses_received = 0 \<rparr>
                 in (case acquire w1 of
                       (False, w2) \<Rightarrow> Some (None, Some b', w2)
                     | (True, w2) \<Rightarrow>
                         (case cl_tls (b_client b') of
                            Some t \<Rightarrow>
                              (case rioc_tls_writev (Some t) w2 (Some (batch_iovs b')) of
                                 (r, w3) \<Rightarrow>
                                   if r < 0 then Some (None, Some b', w3)
                                   else (case start_thread w3 tracker of
                                           (tr, w4) \<Rightarrow> Some (tr, Some b', w4)))
                          | None \<Rightarrow>
                              (case writev_all w2 (batch_iovs b') of
                                 None \<Rightarrow> None
                               | Some (r, w3) \<Rightarrow>
                                   if r < 0 then Some (None, Some b', w3)
                                   else (case start_thread w3 tracker of
                                           (tr, w4) \<Rightarrow> Some (tr, Some b', w4)))))))"


section \<open>Receiving\<close>

text \<open>
  The receiving code stores incoming bytes in buffers of a fixed size without
  comparing the length the server announces to that size. A run that stores bytes
  past the end of such a buffer has no defined behaviour; it is the result \<open>Overrun\<close>.
\<close>

datatype 'a run = Ret 'a | Overrun

text \<open>
  The read the response thread makes at every step (\<open>rioc_tls_read\<close> on a TLS client,
  \<open>recv_all\<close> otherwise), and the one the synchronous calls make (\<open>rioc_tls_read\<close> or
  \<open>rioc_recv\<close>).
\<close>

definition batch_read :: "rioc_client \<Rightarrow> world \<Rightarrow> nat \<Rightarrow> int \<times> byte list \<times> world" where
  "batch_read client w len =
     (case cl_tls client of
        Some t \<Rightarrow> rioc_tls_read (Some t) w True len
      | None \<Rightarrow> recv_all w len)"

definition sync_read :: "rioc_client \<Rightarrow> world \<Rightarrow> nat \<Rightarrow> int \<times> byte list \<times> world" where
  "sync_read client w len =
     (case cl_tls client of
        Some t \<Rightarrow> rioc_tls_read (Some t) w True len
      | None \<Rightarrow> sys_recv w len)"

text \<open>
  The loop over the entries of a range result, which \<open>rioc_range_query\<close> and
  \<open>response_thread_func\<close> both contain, with the read as a parameter. \<open>k\<close> counts the
  entries still to come, \<open>offset\<close> is the position in the 1024000-byte \<open>buffer\<close>,
  \<open>acc\<close> the entries of \<open>results\<close> filled so far. \<open>Ret (Inl e)\<close> is the exit with the
  error \<open>e\<close>, after which the entries are freed.

  The value length of an entry is a \<open>size_t\<close>, and the test \<open>ret != value_len\<close> compares
  the \<open>ssize_t\<close> result of the read to it as an unsigned number: a failed read (\<open>- 1\<close>)
  passes the test when the announced length is \<open>2 ^ 64 - 1\<close>, and \<open>memcpy\<close> then copies
  that many bytes out of \<open>buffer\<close>.
\<close>

abbreviation range_buffer_size :: nat where "range_buffer_size \<equiv> RIOC_MAX_VALUE_SIZE * 10"

fun recv_range_results ::
  "(world \<Rightarrow> nat \<Rightarrow> int \<times> byte list \<times> world) \<Rightarrow> world \<Rightarrow> nat \<Rightarrow> nat \<Rightarrow> rioc_range_result list \<Rightarrow>
     (int + rioc_range_result list) run \<times> world" where
  "recv_range_results rd w 0 offset acc = (Ret (Inr acc), w)"
| "recv_range_results rd w (Suc k) offset acc =
     (case rd w 2 of
        (n1, kl, w1) \<Rightarrow>
          if offset + length kl > range_buffer_size then (Overrun, w1)
          else if n1 \<noteq> 2 then (Ret (Inl RIOC_ERR_IO), w1)
          else
            let key_len = le_nat kl
            in (case rd w1 key_len of
                  (n2, kb, w2) \<Rightarrow>
                    if offset + 2 + length kb > range_buffer_size then (Overrun, w2)
                    else if n2 \<noteq> int key_len then (Ret (Inl RIOC_ERR_IO), w2)
                    else
                      (case acquire w2 of
                         (False, w3) \<Rightarrow> (Ret (Inl RIOC_ERR_MEM), w3)
                       | (True, w3) \<Rightarrow>
                           (case rd w3 8 of
                              (n3, vl, w4) \<Rightarrow>
                                if offset + 2 + key_len + length vl > range_buffer_size then (Overrun, w4)
                                else if n3 \<noteq> 8 then (Ret (Inl RIOC_ERR_IO), w4)
                                else
                                  let value_len = le_nat vl
                                  in (case rd w4 value_len of
                                        (n4, vb, w5) \<Rightarrow>
                                          if offset + 2 + key_len + 8 + length vb > range_buffer_size
                                          then (Overrun, w5)
                                          else if n4 mod 2 ^ 64 \<noteq> int value_len
                                          then (Ret (Inl RIOC_ERR_IO), w5)
                                          else
                                            (case acquire w5 of
                                               (False, w6) \<Rightarrow> (Ret (Inl RIOC_ERR_MEM), w6)
                                             | (True, w6) \<Rightarrow>
                                                 if offset + 2 + key_len + 8 + value_len > range_buffer_size
                                                 then (Overrun, w6)
                                                 else recv_range_results rd w6 k
                                                   (offset + 2 + key_len + 8 + value_len)
                                                   (acc @ [\<lparr> rr_key = map Some kb @ [Some 0],
                                                              rr_key_len = key_len,
                                                              rr_value = map Some vb @ [Some 0],
                                                              rr_value_len = value_len \<rparr>])))))))"

subsection \<open>The synchronous path: \<open>recv_response\<close>\<close>

text \<open>
  \<open>recv_response\<close>: the return code, the header stored in \<open>*response\<close>, what the call
  wrote to \<open>*value\<close> and \<open>*value_len\<close> (\<open>None\<close> where it wrote nothing), and the world.
  \<open>want\<close> is the test \<open>value && value_len\<close>.
\<close>

definition recv_response ::
  "rioc_client \<Rightarrow> world \<Rightarrow> bool \<Rightarrow>
     int \<times> rioc_response_header option \<times> value_ptr option \<times> nat option \<times> world" where
  "recv_response client w want =
     (case sync_read client w 8 of
        (n, hb, w1) \<Rightarrow>
          if n \<noteq> 8 then (RIOC_ERR_IO, None, None, None, w1)
          else
            let response = response_header_of hb;
                vlen = unat (rh_value_len response)
            in if sint (rh_status response) \<noteq> RIOC_SUCCESS
               then (sint (rh_status response), Some response, None, None, w1)
               else if vlen > 0 \<and> want then
                 (if vlen \<le> 4096 then
                    (case sync_read client w1 vlen of
                       (n2, vb, w2) \<Rightarrow>
                         if n2 \<noteq> int vlen then (RIOC_ERR_IO, Some response, None, None, w2)
                         else
                           (case acquire w2 of
                              (False, w3) \<Rightarrow> (RIOC_ERR_MEM, Some response, Some Null, None, w3)
                            | (True, w3) \<Rightarrow>
                                (RIOC_SUCCESS, Some response, Some (Heap (map Some vb @ [Some 0])),
                                 Some vlen, w3)))
                  else
                    (case acquire w1 of
                       (False, w2) \<Rightarrow> (RIOC_ERR_MEM, Some response, Some Null, None, w2)
                     | (True, w2) \<Rightarrow>
                         (case sync_read client w2 vlen of
                            (n2, vb, w3) \<Rightarrow>
                              if n2 \<noteq> int vlen then (RIOC_ERR_IO, Some response, Some Freed, None, w3)
                              else (RIOC_SUCCESS, Some response, Some (Heap (map Some vb @ [Some 0])),
                                    Some vlen, w3))))
               else if want then (RIOC_SUCCESS, Some response, Some Null, Some 0, w1)
               else (RIOC_SUCCESS, Some response, None, None, w1))"

subsection \<open>The response thread\<close>

definition tracker_fail :: "rioc_batch_tracker \<Rightarrow> int \<Rightarrow> rioc_batch_tracker" where
  "tracker_fail tracker e = tracker \<lparr> t_error := e, t_completed := 1 \<rparr>"

definition set_op :: "rioc_batch_tracker \<Rightarrow> nat \<Rightarrow> rioc_batch_op \<Rightarrow> rioc_batch_tracker" where
  "set_op tracker i op = tracker \<lparr> t_batch := (t_batch tracker) \<lparr> b_ops := (b_ops (t_batch tracker))(i := op) \<rparr> \<rparr>"

abbreviation response_buffer_size :: nat where
  "response_buffer_size \<equiv> RIOC_MAX_VALUE_SIZE + RIOC_CACHE_LINE_SIZE"

text \<open>
  One round of the loop of \<open>response_thread_func\<close>, for operation \<open>i\<close>: \<open>Ret (True, t)\<close>
  when the loop goes on with the tracker \<open>t\<close>, \<open>Ret (False, t)\<close> when the thread
  returns.
\<close>

definition response_step ::
  "world \<Rightarrow> rioc_batch_tracker \<Rightarrow> nat \<Rightarrow> (bool \<times> rioc_batch_tracker) run \<times> world" where
  "response_step w tracker i =
     (let batch = t_batch tracker;
          op = b_ops batch i;
          client = b_client batch
      in case batch_read client w 8 of
           (ret, hb, w1) \<Rightarrow>
             if ret \<noteq> 8 then (Ret (False, tracker_fail tracker RIOC_ERR_IO), w1)
             else
               let response = response_header_of hb;
                   vlen = unat (rh_value_len response);
                   op1 = op \<lparr> op_response := \<lparr> rs_value_len = vlen, rs_status = sint (rh_status response) \<rparr> \<rparr>;
                   cmd = oh_command (op_header op)
               in if (cmd = RIOC_CMD_GET \<or> cmd = RIOC_CMD_ATOMIC_INC_DEC) \<and> vlen > 0 then
                    (case batch_read client w1 vlen of
                       (ret2, vb, w2) \<Rightarrow>
                         if length vb > response_buffer_size then (Overrun, w2)
                         else if ret2 \<noteq> int vlen
                         then (Ret (False, tracker_fail (set_op tracker i op1) RIOC_ERR_IO), w2)
                         else
                           (case acquire w2 of
                              (False, w3) \<Rightarrow> (Ret (False, tracker_fail (set_op tracker i op1) RIOC_ERR_MEM), w3)
                            | (True, w3) \<Rightarrow>
                                let value = map Some vb @ [if cmd = RIOC_CMD_GET then Some 0 else None];
                                    op2 = op1 \<lparr> op_value_ptr := Heap value \<rparr>
                                in (Ret (True, (set_op tracker i op2) \<lparr> t_responses_received := i + 1 \<rparr>), w3)))
                  else if cmd = RIOC_CMD_RANGE_QUERY \<and> vlen > 0 then
                    (case acquire w1 of
                       (False, w2) \<Rightarrow> (Ret (False, tracker_fail (set_op tracker i op1) RIOC_ERR_MEM), w2)
                     | (True, w2) \<Rightarrow>
                         (case acquire w2 of
                            (False, w3) \<Rightarrow> (Ret (False, tracker_fail (set_op tracker i op1) RIOC_ERR_MEM), w3)
                          | (True, w3) \<Rightarrow>
                              (case recv_range_results (batch_read client) w3 vlen 0 [] of
                                 (Overrun, w4) \<Rightarrow> (Overrun, w4)
                               | (Ret (Inl e), w4) \<Rightarrow> (Ret (False, tracker_fail (set_op tracker i op1) e), w4)
                               | (Ret (Inr results), w4) \<Rightarrow>
                                   (Ret (True, (set_op tracker i (op1 \<lparr> op_value_ptr := Results results \<rparr>))
                                                 \<lparr> t_responses_received := i + 1 \<rparr>), w4))))
                  else (Ret (True, (set_op tracker i op1) \<lparr> t_responses_received := i + 1 \<rparr>), w1))"

lemma response_step_count:
  "response_step w tracker i = (Ret (c, t'), w') \<Longrightarrow> b_count (t_batch t') = b_count (t_batch tracker)"
  by (auto simp: response_step_def Let_def tracker_fail_def set_op_def
           split: prod.splits if_splits bool.splits run.splits sum.splits)

function response_loop :: "world \<Rightarrow> rioc_batch_tracker \<Rightarrow> nat \<Rightarrow> rioc_batch_tracker run \<times> world" where
  "response_loop w tracker i =
     (if i < b_count (t_batch tracker) then
        (case response_step w tracker i of
           (Overrun, w') \<Rightarrow> (Overrun, w')
         | (Ret (False, t'), w') \<Rightarrow> (Ret t', w')
         | (Ret (True, t'), w') \<Rightarrow> response_loop w' t' (i + 1))
      else (Ret (tracker \<lparr> t_error := RIOC_SUCCESS, t_completed := 1 \<rparr>), w))"
  by pat_completeness auto
termination
  apply (relation "measure (\<lambda>(w, tracker, i). b_count (t_batch tracker) - i)")
   apply simp
  apply (auto dest!: response_step_count [OF sym])
  done

declare response_loop.simps [simp del]

definition response_thread_func :: "world \<Rightarrow> rioc_batch_tracker \<Rightarrow> rioc_batch_tracker run \<times> world" where
  "response_thread_func w tracker =
     (case acquire w of
        (False, w1) \<Rightarrow> (Ret (tracker \<lparr> t_error := RIOC_ERR_MEM, t_completed := 1 \<rparr>), w1)
      | (True, w1) \<Rightarrow> response_loop w1 tracker 0)"


section \<open>Single operations\<close>

text \<open>
  Each call returns its code, what it stored through its out-parameters, and the
  world; the outer \<open>option\<close> is \<open>None\<close> when \<open>writev_all\<close> never returns.
\<close>

definition rioc_get ::
  "rioc_client option \<Rightarrow> world \<Rightarrow> cbuf \<Rightarrow> bool \<Rightarrow> bool \<Rightarrow>
     (int \<times> value_ptr option \<times> nat option \<times> world) option" where
  "rioc_get client w key value_out value_len_out =
     (case client of
        None \<Rightarrow> Some (RIOC_ERR_PARAM, None, None, w)
      | Some c \<Rightarrow>
          if cbuf_null key \<or> \<not> value_out \<or> \<not> value_len_out \<or> cbuf_len key > RIOC_MAX_KEY_SIZE
          then Some (RIOC_ERR_PARAM, None, None, w)
          else
            (case send_op c w RIOC_CMD_GET key (NullPtr 0) 0 of
               None \<Rightarrow> None
             | Some (ret, w1) \<Rightarrow>
                 if ret \<noteq> RIOC_SUCCESS then Some (ret, None, None, w1)
                 else
                   (case recv_response c w1 True of
                      (ret2, response, v, l, w2) \<Rightarrow> Some (ret2, v, l, w2))))"

definition rioc_insert ::
  "rioc_client option \<Rightarrow> world \<Rightarrow> cbuf \<Rightarrow> cbuf \<Rightarrow> 64 word \<Rightarrow> (int \<times> world) option" where
  "rioc_insert client w key val timestamp =
     (case client of
        None \<Rightarrow> Some (RIOC_ERR_PARAM, w)
      | Some c \<Rightarrow>
          if cbuf_null key \<or> cbuf_null val \<or> cbuf_len key > RIOC_MAX_KEY_SIZE \<or>
             cbuf_len val > RIOC_MAX_VALUE_SIZE
          then Some (RIOC_ERR_PARAM, w)
          else
            (case send_op c w RIOC_CMD_INSERT key val timestamp of
               None \<Rightarrow> None
             | Some (ret, w1) \<Rightarrow>
                 if ret \<noteq> RIOC_SUCCESS then Some (ret, w1)
                 else
                   (case recv_response c w1 False of
                      (ret2, response, v, l, w2) \<Rightarrow> Some (ret2, w2))))"

definition rioc_delete ::
  "rioc_client option \<Rightarrow> world \<Rightarrow> cbuf \<Rightarrow> 64 word \<Rightarrow> (int \<times> world) option" where
  "rioc_delete client w key timestamp =
     (case client of
        None \<Rightarrow> Some (RIOC_ERR_PARAM, w)
      | Some c \<Rightarrow>
          if cbuf_null key \<or> cbuf_len key > RIOC_MAX_KEY_SIZE
          then Some (RIOC_ERR_PARAM, w)
          else
            (case send_op c w RIOC_CMD_DELETE key (NullPtr 0) timestamp of
               None \<Rightarrow> None
             | Some (ret, w1) \<Rightarrow>
                 if ret \<noteq> RIOC_SUCCESS then Some (ret, w1)
                 else
                   (case recv_response c w1 False of
                      (ret2, response, v, l, w2) \<Rightarrow> Some (ret2, w2))))"



text \<open>
  \<open>rioc_range_query\<close>: the return code, \<open>*results\<close> (\<open>None\<close> for \<open>NULL\<close>) and
  \<open>*result_count\<close>. The request always carries four iovec entries, the end key too
  when it is empty. \<open>range_query_recv\<close> is the second half of the function, from the
  read of the response header on.
\<close>

definition range_query_recv ::
  "rioc_client \<Rightarrow> world \<Rightarrow> (int \<times> rioc_range_result list option \<times> nat) run \<times> world" where
  "range_query_recv c w1 =
     (case sync_read c w1 8 of
        (n, hb, w2) \<Rightarrow>
          if n \<noteq> 8 then (Ret (RIOC_ERR_IO, None, 0), w2)
          else
            let response = response_header_of hb;
                cnt = unat (rh_value_len response)
            in if sint (rh_status response) \<noteq> RIOC_SUCCESS
               then (Ret (sint (rh_status response), None, 0), w2)
               else if cnt = 0 then (Ret (RIOC_SUCCESS, None, 0), w2)
               else
                 (case acquire w2 of
                    (False, w3) \<Rightarrow> (Ret (RIOC_ERR_MEM, None, cnt), w3)
                  | (True, w3) \<Rightarrow>
                      (case acquire w3 of
                         (False, w4) \<Rightarrow> (Ret (RIOC_ERR_MEM, None, 0), w4)
                       | (True, w4) \<Rightarrow>
                           (case recv_range_results (sync_read c) w4 cnt 0 [] of
                              (Overrun, w5) \<Rightarrow> (Overrun, w5)
                            | (Ret (Inl e), w5) \<Rightarrow> (Ret (e, None, 0), w5)
                            | (Ret (Inr results), w5) \<Rightarrow>
                                (Ret (RIOC_SUCCESS, Some results, cnt), w5)))))"

definition rioc_range_query ::
  "rioc_client option \<Rightarrow> world \<Rightarrow> cbuf \<Rightarrow> cbuf \<Rightarrow> bool \<Rightarrow> bool \<Rightarrow>
     ((int \<times> rioc_range_result list option \<times> nat) run \<times> world) option" where
  "rioc_range_query client w start_key end_key results_out result_count_out =
     (case client of
        None \<Rightarrow> Some (Ret (RIOC_ERR_PARAM, None, 0), w)
      | Some c \<Rightarrow>
          if cbuf_null start_key \<or> cbuf_null end_key \<or> \<not> results_out \<or> \<not> result_count_out \<or>
             cbuf_len start_key > RIOC_MAX_KEY_SIZE \<or> cbuf_len end_key > RIOC_MAX_KEY_SIZE
          then Some (Ret (RIOC_ERR_PARAM, None, 0), w)
          else
            let batch_header = \<lparr> bh_magic = RIOC_MAGIC, bh_version = RIOC_VERSION, bh_count = 1,
                                  bh_flags = or RIOC_FLAG_PIPELINE RIOC_FLAG_MORE \<rparr>;
                op_header = \<lparr> oh_command = RIOC_CMD_RANGE_QUERY,
                              oh_key_len = of_nat (cbuf_len start_key),
                              oh_value_len = of_nat (cbuf_len end_key), oh_timestamp = 0 \<rparr>;
                iovs = [batch_header_bytes batch_header, op_header_bytes op_header,
                        cbuf_bytes start_key, cbuf_bytes end_key];
                total_size = length (concat iovs)
            in (case cl_tls c of
                  Some t \<Rightarrow>
                    (case tls_send_iovs (Some t) w iovs of
                       (ret, w1) \<Rightarrow>
                         if ret \<noteq> RIOC_SUCCESS then Some (Ret (RIOC_ERR_IO, None, 0), w1)
                         else Some (range_query_recv c w1))
                | None \<Rightarrow>
                    (case writev_all w iovs of
                       None \<Rightarrow> None
                     | Some (n, w1) \<Rightarrow>
                         if n < 0 \<or> nat n \<noteq> total_size then Some (Ret (RIOC_ERR_IO, None, 0), w1)
                         else Some (range_query_recv c w1))))"

section \<open>Properties of the sending code\<close>

lemma sys_send_eff:
  "sys_send w bs = (n, w') \<Longrightarrow>
     io_calls w' = io_calls w + 1 \<and> rx_wire w' = rx_wire w \<and> rx_plan w' = rx_plan w \<and>
     res_plan w' = res_plan w \<and> n \<le> int (length bs) \<and>
     tx_wire w' = tx_wire w @ take (nat n) bs"
  by (auto simp: sys_send_def min_def split: list.splits io_event.splits if_splits)

lemma ssl_write_eff:
  "ssl_write w bs = (n, err, w') \<Longrightarrow>
     io_calls w' = io_calls w + 1 \<and> rx_wire w' = rx_wire w \<and> rx_plan w' = rx_plan w \<and>
     res_plan w' = res_plan w \<and> n \<le> int (length bs) \<and>
     tx_wire w' = tx_wire w @ take (nat n) bs"
  by (auto simp: ssl_write_def min_def split: list.splits io_event.splits if_splits)

lemma take_drop_split: "take n (drop k xs) @ drop (k + n) xs = drop k xs"
  by (metis add.commute append_take_drop_id drop_drop)

lemma tls_write_loop_wire:
  "tls_write_loop w buf tw = (r, w') \<Longrightarrow> tw \<le> length buf \<Longrightarrow>
     io_calls w \<le> io_calls w' \<and> res_plan w' = res_plan w \<and> (0 \<le> r \<longrightarrow> tx_wire w' = tx_wire w @ drop tw buf)"
proof (induction w buf tw rule: tls_write_loop.induct)
  case (1 w buf tw)
  show ?case
  proof (cases "tw < length buf")
    case False
    with 1(3,4) show ?thesis by (simp add: tls_write_loop.simps [of w buf tw])
  next
    case True
    let ?cs = "if length buf - tw > RIOC_TLS_CHUNK_SIZE then RIOC_TLS_CHUNK_SIZE else length buf - tw"
    obtain ret err w1 where sw: "ssl_write w (take ?cs (drop tw buf)) = (ret, err, w1)"
      by (cases "ssl_write w (take ?cs (drop tw buf))") auto
    note eff = ssl_write_eff [OF sw]
    show ?thesis
    proof (cases "ret \<le> 0")
      case r0: True
      show ?thesis
      proof (cases "err = SSL_ERROR_WANT_READ \<or> err = SSL_ERROR_WANT_WRITE")
        case w: True
        with r0 sw True 1(3)
        have call: "tls_write_loop w1 buf tw = (r, w')"
          by (simp add: tls_write_loop.simps [of w buf tw] Let_def)
        from 1(1) [OF True refl refl sw [symmetric] refl r0 w call 1(4)] eff r0
        show ?thesis by auto
      next
        case False
        with r0 sw True 1(3) eff show ?thesis
          by (auto simp add: tls_write_loop.simps [of w buf tw] Let_def)
      qed
    next
      case r1: False
      with sw True 1(3)
      have call: "tls_write_loop w1 buf (tw + nat ret) = (r, w')"
        by (simp add: tls_write_loop.simps [of w buf tw] Let_def)
      from eff True have le: "nat ret \<le> length buf - tw" by (auto split: if_splits)
      then have bound: "tw + nat ret \<le> length buf" using True by linarith
      have tk: "take (nat ret) (take ?cs (drop tw buf)) = take (nat ret) (drop tw buf)"
        using eff by (auto simp: min_def split: if_splits)
      have "take (nat ret) (drop tw buf) @ drop (tw + nat ret) buf = drop tw buf"
        by (rule take_drop_split)
      with 1(2) [OF True refl refl sw [symmetric] refl r1 call bound] eff tk
      show ?thesis by auto
    qed
  qed
qed

lemma rioc_tls_write_wire:
  "rioc_tls_write tls w buf = (r, w') \<Longrightarrow>
     io_calls w \<le> io_calls w' \<and> res_plan w' = res_plan w \<and> (0 \<le> r \<longrightarrow> tx_wire w' = tx_wire w @ cbuf_bytes buf)"
  by (auto simp: rioc_tls_write_def split: option.splits if_splits dest: tls_write_loop_wire)


fun ssl_benign :: "io_event \<Rightarrow> bool" where
  "ssl_benign (Xfer n) = (n > 0)"
| "ssl_benign (Fail e) = (e = SSL_ERROR_WANT_READ \<or> e = SSL_ERROR_WANT_WRITE)"
| "ssl_benign Down = False"

lemma ssl_write_benign:
  "ssl_write w bs = (n, err, w') \<Longrightarrow> list_all ssl_benign (tx_plan w) \<Longrightarrow> bs \<noteq> [] \<Longrightarrow>
     list_all ssl_benign (tx_plan w') \<and>
     (n \<le> 0 \<longrightarrow> err = SSL_ERROR_WANT_READ \<or> err = SSL_ERROR_WANT_WRITE)"
  by (auto simp: ssl_write_def min_def split: list.splits io_event.splits if_splits)

lemma tls_write_loop_benign:
  "tls_write_loop w buf tw = (r, w') \<Longrightarrow> tw \<le> length buf \<Longrightarrow> list_all ssl_benign (tx_plan w) \<Longrightarrow>
     r = int (length buf) \<and> list_all ssl_benign (tx_plan w')"
proof (induction w buf tw rule: tls_write_loop.induct)
  case (1 w buf tw)
  show ?case
  proof (cases "tw < length buf")
    case False
    with 1(3,4,5) show ?thesis by (simp add: tls_write_loop.simps [of w buf tw])
  next
    case True
    let ?cs = "if length buf - tw > RIOC_TLS_CHUNK_SIZE then RIOC_TLS_CHUNK_SIZE else length buf - tw"
    obtain ret err w1 where sw: "ssl_write w (take ?cs (drop tw buf)) = (ret, err, w1)"
      by (cases "ssl_write w (take ?cs (drop tw buf))") auto
    from True have ne: "take ?cs (drop tw buf) \<noteq> []" by auto
    note eff = ssl_write_eff [OF sw]
    note ben = ssl_write_benign [OF sw 1(5) ne]
    show ?thesis
    proof (cases "ret \<le> 0")
      case r0: True
      with ben have w: "err = SSL_ERROR_WANT_READ \<or> err = SSL_ERROR_WANT_WRITE" by simp
      with r0 sw True 1(3)
      have call: "tls_write_loop w1 buf tw = (r, w')"
        by (simp add: tls_write_loop.simps [of w buf tw] Let_def)
      from 1(1) [OF True refl refl sw [symmetric] refl r0 w call 1(4)] ben
      show ?thesis by simp
    next
      case r1: False
      with sw True 1(3)
      have call: "tls_write_loop w1 buf (tw + nat ret) = (r, w')"
        by (simp add: tls_write_loop.simps [of w buf tw] Let_def)
      from eff True have le: "nat ret \<le> length buf - tw" by (auto split: if_splits)
      then have bound: "tw + nat ret \<le> length buf" using True by linarith
      from 1(2) [OF True refl refl sw [symmetric] refl r1 call bound] ben
      show ?thesis by simp
    qed
  qed
qed

lemma rioc_tls_write_benign:
  "rioc_tls_write (Some t) w (Buf bs) = (r, w') \<Longrightarrow> tls_ssl t \<Longrightarrow> list_all ssl_benign (tx_plan w) \<Longrightarrow>
     r = int (length bs) \<and> list_all ssl_benign (tx_plan w')"
  by (auto simp: rioc_tls_write_def dest: tls_write_loop_benign)

lemma tls_writev_inner_wire:
  "tls_writev_inner tls w chunk tot is_last data offset = (res, w') \<Longrightarrow> offset \<le> length data \<Longrightarrow>
     io_calls w \<le> io_calls w' \<and> res_plan w' = res_plan w \<and>
     (case res of Inl r \<Rightarrow> r < 0
      | Inr (c', t') \<Rightarrow> tx_wire w' @ c' = tx_wire w @ chunk @ drop offset data)"
proof (induction tls w chunk tot is_last data offset rule: tls_writev_inner.induct)
  case (1 tls w chunk tot is_last data offset)
  show ?case
  proof (cases "length data - offset > 0")
    case False
    with 1(3) have "res = Inr (chunk, tot)" "w' = w"
      by (simp_all add: tls_writev_inner.simps [of tls w chunk tot is_last data offset])
    moreover from False 1(4) have "drop offset data = []" by simp
    ultimately show ?thesis by simp
  next
    case True
    let ?rem = "length data - offset"
    let ?can = "RIOC_TLS_CHUNK_SIZE - length chunk"
    let ?add = "if ?rem > ?can then ?can else ?rem"
    have split: "take ?add (drop offset data) @ drop (offset + ?add) data = drop offset data"
      by (rule take_drop_split)
    have off: "offset + ?add \<le> length data" using True by auto
    show ?thesis
    proof (cases "?add = ?can \<or> (is_last \<and> ?rem = ?add)")
      case flush: True
      obtain ret w1 where tw: "rioc_tls_write tls w (Buf (chunk @ take ?add (drop offset data))) = (ret, w1)"
        by (cases "rioc_tls_write tls w (Buf (chunk @ take ?add (drop offset data)))") auto
      note eff = rioc_tls_write_wire [OF tw]
      show ?thesis
      proof (cases "ret < 0")
        case True
        with tw flush \<open>0 < ?rem\<close> 1(3) eff show ?thesis
          by (auto simp add: tls_writev_inner.simps [of tls w chunk tot is_last data offset] Let_def)
      next
        case nf: False
        with tw flush \<open>0 < ?rem\<close> 1(3)
        have call: "tls_writev_inner tls w1 [] (tot + ret) is_last data (offset + ?add) = (res, w')"
          by (simp add: tls_writev_inner.simps [of tls w chunk tot is_last data offset] Let_def)
        from 1(1) [OF \<open>0 < ?rem\<close> refl refl refl flush tw [symmetric] nf call off] eff nf split
        show ?thesis by (auto split: sum.splits prod.splits)
      qed
    next
      case noflush: False
      with \<open>0 < ?rem\<close> 1(3)
      have call: "tls_writev_inner tls w (chunk @ take ?add (drop offset data)) tot is_last data (offset + ?add) = (res, w')"
        by (simp add: tls_writev_inner.simps [of tls w chunk tot is_last data offset] Let_def)
      from 1(2) [OF \<open>0 < ?rem\<close> refl refl refl noflush call off] split
      show ?thesis by (auto split: sum.splits prod.splits)
    qed
  qed
qed

lemma tls_writev_outer_wire:
  "tls_writev_outer tls w chunk tot ds = (res, w') \<Longrightarrow>
     io_calls w \<le> io_calls w' \<and> res_plan w' = res_plan w \<and>
     (case res of Inl r \<Rightarrow> r < 0
      | Inr (c', t') \<Rightarrow> tx_wire w' @ c' = tx_wire w @ chunk @ concat ds)"
proof (induction ds arbitrary: w chunk tot)
  case Nil
  then show ?case by auto
next
  case (Cons d ds)
  obtain r1 w1 where inner: "tls_writev_inner tls w chunk tot (ds = []) d 0 = (r1, w1)"
    by (cases "tls_writev_inner tls w chunk tot (ds = []) d 0") auto
  from tls_writev_inner_wire [OF inner] have i: "io_calls w \<le> io_calls w1"
    "case r1 of Inl r \<Rightarrow> r < 0 | Inr (c', t') \<Rightarrow> tx_wire w1 @ c' = tx_wire w @ chunk @ d"
    "res_plan w1 = res_plan w"
    by (auto split: sum.splits)
  show ?case
  proof (cases r1)
    case (Inl r)
    with inner Cons.prems i show ?thesis by auto
  next
    case (Inr p)
    obtain c1 t1 where p: "p = (c1, t1)" by (cases p)
    with Inr inner Cons.prems have "tls_writev_outer tls w1 c1 t1 ds = (res, w')" by simp
    from Cons.IH [OF this] i Inr p show ?thesis by (auto split: sum.splits)
  qed
qed

lemma rioc_tls_writev_wire:
  assumes "rioc_tls_writev tls w (Some ds) = (r, w')"
  shows "io_calls w \<le> io_calls w' \<and> res_plan w' = res_plan w \<and> (0 \<le> r \<longrightarrow> tx_wire w' = tx_wire w @ concat ds)"
proof (cases "\<exists>t. tls = Some t \<and> tls_ssl t \<and> ds \<noteq> []")
  case False
  with assms show ?thesis
    by (auto simp: rioc_tls_writev_def split: option.splits if_splits)
next
  case True
  then obtain t where t: "tls = Some t" "tls_ssl t" "ds \<noteq> []" by auto
  obtain res w1 where outer: "tls_writev_outer tls w [] 0 ds = (res, w1)"
    by (cases "tls_writev_outer tls w [] 0 ds") auto
  note o = tls_writev_outer_wire [OF outer]
  show ?thesis
  proof (cases res)
    case (Inl e)
    with assms t outer o show ?thesis by (simp add: rioc_tls_writev_def)
  next
    case (Inr p)
    obtain c1 t1 where p: "p = (c1, t1)" by (cases p)
    from o Inr p have inv: "tx_wire w1 @ c1 = tx_wire w @ concat ds" "io_calls w \<le> io_calls w1"
      "res_plan w1 = res_plan w" by auto
    show ?thesis
    proof (cases "length c1 > 0")
      case False
      with assms t outer Inr p inv show ?thesis by (simp add: rioc_tls_writev_def)
    next
      case True
      obtain ret w2 where fl: "rioc_tls_write tls w1 (Buf c1) = (ret, w2)"
        by (cases "rioc_tls_write tls w1 (Buf c1)") auto
      from rioc_tls_write_wire [OF fl] have f: "io_calls w1 \<le> io_calls w2"
        "0 \<le> ret \<longrightarrow> tx_wire w2 = tx_wire w1 @ c1" "res_plan w2 = res_plan w1" by auto
      from assms t outer Inr p True fl
      have "(r, w') = (if ret < 0 then (ret, w2) else (t1 + ret, w2))"
        by (simp add: rioc_tls_writev_def)
      with f inv show ?thesis by (auto split: if_splits)
    qed
  qed
qed

lemma tls_writev_inner_benign:
  "tls_writev_inner (Some t) w chunk tot is_last data offset = (res, w') \<Longrightarrow> offset \<le> length data \<Longrightarrow>
     tls_ssl t \<Longrightarrow> list_all ssl_benign (tx_plan w) \<Longrightarrow>
     (\<exists>c' t'. res = Inr (c', t') \<and>
        t' + int (length c') = tot + int (length chunk) + int (length data - offset)) \<and>
     list_all ssl_benign (tx_plan w')"
proof (induction "Some t" w chunk tot is_last data offset rule: tls_writev_inner.induct)
  case (1 w chunk tot is_last data offset)
  show ?case
  proof (cases "length data - offset > 0")
    case False
    with 1(3) have "res = Inr (chunk, tot)" "w' = w"
      by (simp_all add: tls_writev_inner.simps [of "Some t" w chunk tot is_last data offset])
    with False 1(6) show ?thesis by simp
  next
    case True
    let ?rem = "length data - offset"
    let ?can = "RIOC_TLS_CHUNK_SIZE - length chunk"
    let ?add = "if ?rem > ?can then ?can else ?rem"
    have off: "offset + ?add \<le> length data" using True by auto
    show ?thesis
    proof (cases "?add = ?can \<or> (is_last \<and> ?rem = ?add)")
      case flush: True
      obtain ret w1 where tw: "rioc_tls_write (Some t) w (Buf (chunk @ take ?add (drop offset data))) = (ret, w1)"
        by (cases "rioc_tls_write (Some t) w (Buf (chunk @ take ?add (drop offset data)))") auto
      from rioc_tls_write_benign [OF tw 1(5) 1(6)]
      have ret: "ret = int (length (chunk @ take ?add (drop offset data)))"
        and ben: "list_all ssl_benign (tx_plan w1)" by auto
      then have nf: "\<not> ret < 0" by simp
      with tw flush \<open>0 < ?rem\<close> 1(3)
      have call: "tls_writev_inner (Some t) w1 [] (tot + ret) is_last data (offset + ?add) = (res, w')"
        by (simp add: tls_writev_inner.simps [of "Some t" w chunk tot is_last data offset] Let_def)
      from 1(1) [OF \<open>0 < ?rem\<close> refl refl refl flush tw [symmetric] nf call off 1(5) ben]
      obtain c' t' where r: "res = Inr (c', t')"
        "t' + int (length c') = tot + ret + int (length ([]::byte list)) + int (length data - (offset + ?add))"
        and b: "list_all ssl_benign (tx_plan w')" by auto
      have len: "length (take ?add (drop offset data)) = ?add" using True by auto
      from r(2) ret len True have "t' + int (length c') = tot + int (length chunk) + int (length data - offset)"
        by (auto split: if_splits)
      with r(1) b show ?thesis by simp
    next
      case noflush: False
      with \<open>0 < ?rem\<close> 1(3)
      have call: "tls_writev_inner (Some t) w (chunk @ take ?add (drop offset data)) tot is_last data (offset + ?add) = (res, w')"
        by (simp add: tls_writev_inner.simps [of "Some t" w chunk tot is_last data offset] Let_def)
      from 1(2) [OF \<open>0 < ?rem\<close> refl refl refl noflush call off 1(5) 1(6)]
      obtain c' t' where r: "res = Inr (c', t')"
        "t' + int (length c') = tot + int (length (chunk @ take ?add (drop offset data))) + int (length data - (offset + ?add))"
        and b: "list_all ssl_benign (tx_plan w')" by auto
      have len: "length (take ?add (drop offset data)) = ?add" using True by auto
      from r(2) len True have "t' + int (length c') = tot + int (length chunk) + int (length data - offset)"
        by (auto split: if_splits)
      with r(1) b show ?thesis by simp
    qed
  qed
qed

lemma tls_writev_outer_benign:
  "tls_writev_outer (Some t) w chunk tot ds = (res, w') \<Longrightarrow> tls_ssl t \<Longrightarrow>
     list_all ssl_benign (tx_plan w) \<Longrightarrow>
     (\<exists>c' t'. res = Inr (c', t') \<and>
        t' + int (length c') = tot + int (length chunk) + int (length (concat ds))) \<and>
     list_all ssl_benign (tx_plan w')"
proof (induction ds arbitrary: w chunk tot)
  case Nil
  then show ?case by auto
next
  case (Cons d ds)
  obtain r1 w1 where inner: "tls_writev_inner (Some t) w chunk tot (ds = []) d 0 = (r1, w1)"
    by (cases "tls_writev_inner (Some t) w chunk tot (ds = []) d 0") auto
  from tls_writev_inner_benign [OF inner _ Cons.prems(2,3)]
  obtain c1 t1 where r1: "r1 = Inr (c1, t1)" "t1 + int (length c1) = tot + int (length chunk) + int (length d)"
    and b1: "list_all ssl_benign (tx_plan w1)" by auto
  with inner Cons.prems(1) have "tls_writev_outer (Some t) w1 c1 t1 ds = (res, w')" by simp
  from Cons.IH [OF this Cons.prems(2) b1] r1 show ?case by auto
qed

lemma rioc_tls_writev_benign:
  assumes "tls_ssl t" "list_all ssl_benign (tx_plan w)" "ds \<noteq> []"
  shows "fst (rioc_tls_writev (Some t) w (Some ds)) = int (length (concat ds))"
proof -
  obtain res w1 where outer: "tls_writev_outer (Some t) w [] 0 ds = (res, w1)"
    by (cases "tls_writev_outer (Some t) w [] 0 ds") auto
  from tls_writev_outer_benign [OF outer assms(1,2)]
  obtain c1 t1 where r: "res = Inr (c1, t1)" "t1 + int (length c1) = int (length (concat ds))"
    and b: "list_all ssl_benign (tx_plan w1)" by auto
  show ?thesis
  proof (cases "length c1 > 0")
    case False
    with assms outer r show ?thesis by (simp add: rioc_tls_writev_def)
  next
    case True
    obtain ret w2 where fl: "rioc_tls_write (Some t) w1 (Buf c1) = (ret, w2)"
      by (cases "rioc_tls_write (Some t) w1 (Buf c1)") auto
    from rioc_tls_write_benign [OF fl assms(1) b] have "ret = int (length c1)" by simp
    with assms outer r True fl show ?thesis by (simp add: rioc_tls_writev_def)
  qed
qed

lemma writev_small_loop_wire:
  "writev_small_loop w buf sent = (r, w') \<Longrightarrow> sent \<le> length buf \<Longrightarrow>
     io_calls w \<le> io_calls w' \<and> (0 \<le> r \<longrightarrow> tx_wire w' = tx_wire w @ drop sent buf)"
proof (induction w buf sent rule: writev_small_loop.induct)
  case (1 w buf sent)
  show ?case
  proof (cases "sent < length buf")
    case False
    with 1(4,5) show ?thesis by (simp add: writev_small_loop.simps [of w buf sent])
  next
    case True
    obtain n w1 where ss: "sys_send w (drop sent buf) = (n, w1)"
      by (cases "sys_send w (drop sent buf)") auto
    note eff = sys_send_eff [OF ss]
    show ?thesis
    proof (cases "n \<le> 0")
      case n0: True
      show ?thesis
      proof (cases "errno w1 = RIOC_EINTR")
        case e: True
        with n0 ss True 1(4) have call: "writev_small_loop w1 buf sent = (r, w')"
          by (simp add: writev_small_loop.simps [of w buf sent])
        from 1(1) [OF True ss [symmetric] n0 e call 1(5)] eff n0 show ?thesis by auto
      next
        case ne: False
        show ?thesis
        proof (cases "errno w1 = RIOC_EAGAIN \<or> errno w1 = RIOC_EWOULDBLOCK")
          case a: True
          with ne n0 ss \<open>sent < length buf\<close> 1(4) have call: "writev_small_loop w1 buf sent = (r, w')"
            by (simp add: writev_small_loop.simps [of w buf sent])
          from 1(2) [OF \<open>sent < length buf\<close> ss [symmetric] n0 ne a call 1(5)] eff n0 show ?thesis by auto
        next
          case False
          with ne n0 ss \<open>sent < length buf\<close> 1(4) eff show ?thesis
            by (auto simp add: writev_small_loop.simps [of w buf sent])
        qed
      qed
    next
      case n1: False
      with ss True 1(4) have call: "writev_small_loop w1 buf (sent + nat n) = (r, w')"
        by (simp add: writev_small_loop.simps [of w buf sent])
      from eff True n1 have bound: "sent + nat n \<le> length buf" by auto
      have "take (nat n) (drop sent buf) @ drop (sent + nat n) buf = drop sent buf"
        by (rule take_drop_split)
      with 1(3) [OF True ss [symmetric] n1 call bound] eff show ?thesis by auto
    qed
  qed
qed

lemma send_op_plain_loop_wire:
  "send_op_plain_loop w buf sent = (r, w') \<Longrightarrow> sent \<le> length buf \<Longrightarrow>
     io_calls w \<le> io_calls w' \<and> (sent < length buf \<longrightarrow> io_calls w < io_calls w') \<and>
     (r = RIOC_SUCCESS \<or> r = RIOC_ERR_IO) \<and>
     (r = RIOC_SUCCESS \<longrightarrow> tx_wire w' = tx_wire w @ drop sent buf)"
proof (induction w buf sent rule: send_op_plain_loop.induct)
  case (1 w buf sent)
  show ?case
  proof (cases "sent < length buf")
    case False
    with 1(3,4) show ?thesis by (simp add: send_op_plain_loop.simps [of w buf sent])
  next
    case True
    obtain n w1 where ss: "sys_send w (drop sent buf) = (n, w1)"
      by (cases "sys_send w (drop sent buf)") auto
    note eff = sys_send_eff [OF ss]
    show ?thesis
    proof (cases "n \<le> 0")
      case n0: True
      show ?thesis
      proof (cases "errno w1 = RIOC_EINTR")
        case e: True
        with n0 ss True 1(3) have call: "send_op_plain_loop w1 buf sent = (r, w')"
          by (simp add: send_op_plain_loop.simps [of w buf sent])
        from 1(1) [OF True ss [symmetric] n0 e call 1(4)] eff n0 show ?thesis by auto
      next
        case ne: False
        with n0 ss \<open>sent < length buf\<close> 1(3) eff show ?thesis
          by (auto simp add: send_op_plain_loop.simps [of w buf sent])
      qed
    next
      case n1: False
      with ss True 1(3) have call: "send_op_plain_loop w1 buf (sent + nat n) = (r, w')"
        by (simp add: send_op_plain_loop.simps [of w buf sent])
      from eff True n1 have bound: "sent + nat n \<le> length buf" by auto
      have "take (nat n) (drop sent buf) @ drop (sent + nat n) buf = drop sent buf"
        by (rule take_drop_split)
      with 1(2) [OF True ss [symmetric] n1 call bound] eff show ?thesis by auto
    qed
  qed
qed

lemma iov_advance_concat:
  "n \<le> length (concat iov) \<Longrightarrow> concat (iov_advance iov n) = drop n (concat iov)"
  by (induction iov n rule: iov_advance.induct) auto

lemma writev_loop_wire_aux:
  assumes "writev_loop w0 iov0 tot0 = Some y0"
  shows "io_calls w0 \<le> io_calls (snd y0) \<and>
         (0 \<le> fst y0 \<longrightarrow> tx_wire (snd y0) = tx_wire w0 @ concat iov0)"
proof (rule writev_loop.raw_induct
         [where P = "\<lambda>w iov tot y. io_calls w \<le> io_calls (snd y) \<and>
                       (0 \<le> fst y \<longrightarrow> tx_wire (snd y) = tx_wire w @ concat iov)", OF _ assms],
       goal_cases)
  case (1 f w iov tot y)
  show ?case
  proof (cases "length iov > 0")
    case False
    with 1(2) show ?thesis by auto
  next
    case True
    obtain n w1 where ss: "sys_send w (concat iov) = (n, w1)"
      by (cases "sys_send w (concat iov)") auto
    note eff = sys_send_eff [OF ss]
    show ?thesis
    proof (cases "n \<le> 0")
      case n0: True
      with 1(2) True ss have "f w1 iov tot = Some y \<or> y = (- 1, w1)"
        by (auto split: if_splits)
      then show ?thesis
      proof
        assume "f w1 iov tot = Some y"
        from 1(1) [OF this] eff n0 show ?thesis by auto
      next
        assume "y = (- 1, w1)"
        with eff show ?thesis by auto
      qed
    next
      case n1: False
      with 1(2) True ss have call: "f w1 (iov_advance iov (nat n)) (tot + nat n) = Some y"
        by simp
      from eff n1 have "nat n \<le> length (concat iov)" by auto
      from iov_advance_concat [OF this] 1(1) [OF call] eff show ?thesis by auto
    qed
  qed
qed

lemma writev_loop_wire:
  "writev_loop w iov tot = Some (r, w') \<Longrightarrow>
     io_calls w \<le> io_calls w' \<and> (0 \<le> r \<longrightarrow> tx_wire w' = tx_wire w @ concat iov)"
  using writev_loop_wire_aux [of w iov tot "(r, w')"] by simp

lemma writev_all_wire:
  "writev_all w iov = Some (r, w') \<Longrightarrow>
     io_calls w \<le> io_calls w' \<and> (0 \<le> r \<longrightarrow> tx_wire w' = tx_wire w @ concat iov)"
  by (auto simp: writev_all_def Let_def split: if_splits dest: writev_small_loop_wire writev_loop_wire)

lemma acquire_eff:
  "acquire w = (ok, w') \<Longrightarrow>
     tx_wire w' = tx_wire w \<and> rx_wire w' = rx_wire w \<and> tx_plan w' = tx_plan w \<and>
     rx_plan w' = rx_plan w \<and> io_calls w' = io_calls w \<and> errno w' = errno w"
  by (auto simp: acquire_def split: list.splits)

lemma tls_send_buf_wire:
  "tls_send_buf tls w buf sent = (r, w') \<Longrightarrow> sent \<le> length buf \<Longrightarrow>
     io_calls w \<le> io_calls w' \<and> (r = RIOC_SUCCESS \<or> r = RIOC_ERR_IO) \<and>
     (r = RIOC_SUCCESS \<longrightarrow> tx_wire w' = tx_wire w @ drop sent buf)"
proof (induction tls w buf sent rule: tls_send_buf.induct)
  case (1 tls w buf sent)
  show ?case
  proof (cases "sent < length buf")
    case False
    with 1(3,4) show ?thesis by (simp add: tls_send_buf.simps [of tls w buf sent])
  next
    case True
    obtain n w1 where tw: "rioc_tls_write tls w (Buf (drop sent buf)) = (n, w1)"
      by (cases "rioc_tls_write tls w (Buf (drop sent buf))") auto
    note eff = rioc_tls_write_wire [OF tw]
    note ret = rioc_tls_write_ret [OF tw]
    show ?thesis
    proof (cases "n \<le> 0")
      case n0: True
      with ret True have "n \<noteq> - int RIOC_EAGAIN" by auto
      with n0 tw True 1(3) eff show ?thesis
        by (auto simp add: tls_send_buf.simps [of tls w buf sent])
    next
      case n1: False
      with tw True 1(3) have call: "tls_send_buf tls w1 buf (sent + nat n) = (r, w')"
        by (simp add: tls_send_buf.simps [of tls w buf sent])
      from ret n1 True have n: "nat n = length buf - sent" by auto
      with True have bound: "sent + nat n \<le> length buf" by simp
      from 1(2) [OF True tw [symmetric] n1 call bound] eff n n1 True show ?thesis by auto
    qed
  qed
qed

lemma tls_send_iovs_wire:
  "tls_send_iovs tls w ds = (r, w') \<Longrightarrow>
     io_calls w \<le> io_calls w' \<and> (r = RIOC_SUCCESS \<or> r = RIOC_ERR_IO) \<and>
     (r = RIOC_SUCCESS \<longrightarrow> tx_wire w' = tx_wire w @ concat ds)"
proof (induction ds arbitrary: w)
  case Nil
  then show ?case by simp
next
  case (Cons d ds)
  obtain r1 w1 where one: "tls_send_buf tls w d 0 = (r1, w1)"
    by (cases "tls_send_buf tls w d 0") auto
  from tls_send_buf_wire [OF one] have o: "io_calls w \<le> io_calls w1" "r1 = RIOC_SUCCESS \<or> r1 = RIOC_ERR_IO"
    "r1 = RIOC_SUCCESS \<longrightarrow> tx_wire w1 = tx_wire w @ d" by auto
  show ?case
  proof (cases "r1 = RIOC_SUCCESS")
    case False
    with one Cons.prems o show ?thesis by auto
  next
    case True
    with one Cons.prems have "tls_send_iovs tls w1 ds = (r, w')" by simp
    from Cons.IH [OF this] o True show ?thesis by auto
  qed
qed







text \<open>
  The batches that the builder can produce: the batch \<open>rioc_batch_create\<close> returns, and
  every batch that a successful call of one of the five add functions makes of such a
  batch.
\<close>

inductive assembled :: "rioc_batch \<Rightarrow> bool" where
  created: "rioc_batch_create w client = (Some b, w') \<Longrightarrow> assembled b"
| added_get: "assembled b \<Longrightarrow> rioc_batch_add_get (Some b) key = (RIOC_SUCCESS, Some b') \<Longrightarrow> assembled b'"
| added_insert:
    "assembled b \<Longrightarrow> rioc_batch_add_insert (Some b) key val timestamp = (RIOC_SUCCESS, Some b') \<Longrightarrow>
       assembled b'"
| added_delete:
    "assembled b \<Longrightarrow> rioc_batch_add_delete (Some b) key timestamp = (RIOC_SUCCESS, Some b') \<Longrightarrow>
       assembled b'"
| added_range_query:
    "assembled b \<Longrightarrow> rioc_batch_add_range_query (Some b) start_key end_key = (RIOC_SUCCESS, Some b') \<Longrightarrow>
       assembled b'"
| added_atomic_inc_dec:
    "assembled b \<Longrightarrow> rioc_batch_add_atomic_inc_dec (Some b) key increment timestamp = (RIOC_SUCCESS, Some b') \<Longrightarrow>
       assembled b'"

text \<open>
  In such a batch the header is the one \<open>rioc_batch_create\<close> wrote, there are at most
  128 operations, and the get and delete operations among them point at no value.
\<close>

lemma batch_add_op_shape:
  assumes "batch_add_op (Some b) command key val timestamp = (RIOC_SUCCESS, Some b')"
  shows "b_batch_header b' = b_batch_header b \<and> b_count b' = b_count b + 1 \<and>
         b_count b < RIOC_MAX_BATCH_SIZE \<and> b_client b' = b_client b \<and>
         (\<forall>i. i \<noteq> b_count b \<longrightarrow> b_ops b' i = b_ops b i) \<and>
         oh_command (op_header (b_ops b' (b_count b))) = command \<and>
         (cbuf_null val \<or> cbuf_len val = 0 \<longrightarrow> op_value_ptr (b_ops b' (b_count b)) = Null)"
  using assms by (auto simp: batch_add_op_def Let_def split: if_splits)

lemma add_range_query_shape:
  assumes "rioc_batch_add_range_query (Some b) start_key end_key = (RIOC_SUCCESS, Some b')"
  shows "b_batch_header b' = b_batch_header b \<and> b_count b' = b_count b + 1 \<and>
         b_count b < RIOC_MAX_BATCH_SIZE \<and> b_client b' = b_client b \<and>
         (\<forall>i. i \<noteq> b_count b \<longrightarrow> b_ops b' i = b_ops b i) \<and>
         oh_command (op_header (b_ops b' (b_count b))) = RIOC_CMD_RANGE_QUERY"
  using assms by (auto simp: rioc_batch_add_range_query_def Let_def split: if_splits)

lemma assembled_header:
  "assembled b \<Longrightarrow>
     b_batch_header b = \<lparr> bh_magic = RIOC_MAGIC, bh_version = RIOC_VERSION, bh_count = 0, bh_flags = 6 \<rparr> \<and>
     b_count b \<le> RIOC_MAX_BATCH_SIZE \<and>
     (\<forall>i < b_count b.
        oh_command (op_header (b_ops b i)) = RIOC_CMD_GET \<or>
        oh_command (op_header (b_ops b i)) = RIOC_CMD_DELETE \<longrightarrow> op_value_ptr (b_ops b i) = Null)"
proof (induction rule: assembled.induct)
  case (created w client b w')
  then show ?case
    by (auto simp: rioc_batch_create_def split: prod.splits bool.splits)
next
  case (added_get b key b')
  from batch_add_op_shape [OF added_get(2) [unfolded rioc_batch_add_get_def]] added_get(3)
  show ?case by (auto simp: less_Suc_eq)
next
  case (added_insert b key val timestamp b')
  from batch_add_op_shape [OF added_insert(2) [unfolded rioc_batch_add_insert_def]] added_insert(3)
  show ?case by (auto simp: less_Suc_eq)
next
  case (added_delete b key timestamp b')
  from batch_add_op_shape [OF added_delete(2) [unfolded rioc_batch_add_delete_def]] added_delete(3)
  show ?case by (auto simp: less_Suc_eq)
next
  case (added_range_query b start_key end_key b')
  from add_range_query_shape [OF added_range_query(2)] added_range_query(3)
  show ?case by (auto simp: less_Suc_eq)
next
  case (added_atomic_inc_dec b key increment timestamp b')
  from batch_add_op_shape [OF added_atomic_inc_dec(2) [unfolded rioc_batch_add_atomic_inc_dec_def]]
    added_atomic_inc_dec(3)
  show ?case by (auto simp: less_Suc_eq)
qed

lemma send_op_wire:
  assumes "send_op c w command key val timestamp = Some (RIOC_SUCCESS, w')"
  shows "tx_wire w' = tx_wire w @
           batch_header_bytes \<lparr> bh_magic = RIOC_MAGIC, bh_version = RIOC_VERSION, bh_count = 1, bh_flags = 6 \<rparr> @
           op_header_bytes \<lparr> oh_command = command, oh_key_len = of_nat (cbuf_len key),
                             oh_value_len = of_nat (cbuf_len val), oh_timestamp = timestamp \<rparr> @
           cbuf_bytes key @ (if \<not> cbuf_null val \<and> cbuf_len val > 0 then cbuf_bytes val else [])"
proof -
  let ?bh = "batch_header_bytes \<lparr> bh_magic = RIOC_MAGIC, bh_version = RIOC_VERSION, bh_count = 1, bh_flags = 6 \<rparr>"
  let ?oh = "op_header_bytes \<lparr> oh_command = command, oh_key_len = of_nat (cbuf_len key),
                             oh_value_len = of_nat (cbuf_len val), oh_timestamp = timestamp \<rparr>"
  let ?iovs = "[?bh, ?oh, cbuf_bytes key] @ (if \<not> cbuf_null val \<and> cbuf_len val > 0 then [cbuf_bytes val] else [])"
  have cc: "concat ?iovs = ?bh @ ?oh @ cbuf_bytes key @ (if \<not> cbuf_null val \<and> cbuf_len val > 0 then cbuf_bytes val else [])"
    by simp
  have "tx_wire w' = tx_wire w @ concat ?iovs"
  proof (cases "cl_tls c")
    case None
    show ?thesis
    proof (cases "length (concat ?iovs) \<le> 4096")
      case True
      with None assms have "send_op_plain_loop w (concat ?iovs) 0 = (RIOC_SUCCESS, w')"
        by (simp add: send_op_def Let_def)
      from send_op_plain_loop_wire [OF this] show ?thesis by simp
    next
      case False
      with None assms obtain n where "writev_all w ?iovs = Some (n, w')" "0 \<le> n"
        by (auto simp add: send_op_def Let_def split: option.splits if_splits)
      from writev_all_wire [OF this(1)] this(2) show ?thesis by simp
    qed
  next
    case (Some t)
    show ?thesis
    proof (cases "length (concat ?iovs) \<le> 4096")
      case True
      with Some assms have "tls_send_buf (Some t) w (concat ?iovs) 0 = (RIOC_SUCCESS, w')"
        by (simp add: send_op_def Let_def)
      from tls_send_buf_wire [OF this] show ?thesis by simp
    next
      case False
      with Some assms have "tls_send_iovs (Some t) w ?iovs = (RIOC_SUCCESS, w')"
        by (simp add: send_op_def Let_def del: tls_send_iovs.simps)
      from tls_send_iovs_wire [OF this] show ?thesis by simp
    qed
  qed
  with cc show ?thesis by (simp only:)
qed

section \<open>Properties of the receiving code\<close>

lemma int_of_size_small [simp]: "n < 2 ^ 31 \<Longrightarrow> int_of_size n = int n"
  unfolding int_of_size_def by (simp add: signed_of_nat signed_take_bit_int_eq_self)

lemma ssize_of_size_small [simp]: "n < 2 ^ 63 \<Longrightarrow> ssize_of_size n = int n"
  unfolding ssize_of_size_def by (simp add: signed_of_nat signed_take_bit_int_eq_self)

lemma int_of_size_range: "- (2 ^ 31) \<le> int_of_size n \<and> int_of_size n < 2 ^ 31"
  unfolding int_of_size_def using sint_range_size [of "word_of_nat n :: 32 word"]
  by (simp add: word_size)

lemma ssize_of_size_range: "- (2 ^ 63) \<le> ssize_of_size n \<and> ssize_of_size n < 2 ^ 63"
  unfolding ssize_of_size_def using sint_range_size [of "word_of_nat n :: 64 word"]
  by (simp add: word_size)

lemma sys_recv_eff:
  "sys_recv w len = (n, bs, w') \<Longrightarrow>
     tx_wire w' = tx_wire w \<and> res_plan w' = res_plan w \<and>
     io_calls w' = io_calls w + 1 \<and> (n = int (length bs) \<or> n = - 1 \<and> bs = []) \<and>
     rx_wire w = bs @ rx_wire w'"
  by (auto simp: sys_recv_def split: list.splits io_event.splits if_splits)

lemma ssl_read_eff:
  "ssl_read w len = (n, err, bs, w') \<Longrightarrow>
     tx_wire w' = tx_wire w \<and> res_plan w' = res_plan w \<and>
     io_calls w' = io_calls w + 1 \<and> (n = int (length bs) \<or> n = - 1 \<and> bs = []) \<and>
     rx_wire w = bs @ rx_wire w'"
  by (auto simp: ssl_read_def split: list.splits io_event.splits if_splits)

lemma tls_read_loop_eff:
  "tls_read_loop w len got = (r, bs, w') \<Longrightarrow> length got \<le> len \<Longrightarrow>
     tx_wire w' = tx_wire w \<and> (r = int len \<longrightarrow> length bs = len) \<and>
     (r = RIOC_ERR_IO \<or> r = int_of_size (length bs))"
proof (induction w len got rule: tls_read_loop.induct)
  case (1 w len got)
  show ?case
  proof (cases "length got < len")
    case False
    with 1(3,4) show ?thesis by (auto simp add: tls_read_loop.simps [of w len got])
  next
    case True
    let ?cs = "if len - length got > RIOC_TLS_CHUNK_SIZE then RIOC_TLS_CHUNK_SIZE else len - length got"
    obtain ret err bs1 w1 where sr: "ssl_read w ?cs = (ret, err, bs1, w1)"
      by (cases "ssl_read w ?cs") auto
    note eff = ssl_read_eff [OF sr]
    from ssl_read_plan [OF sr] have lb: "length bs1 \<le> ?cs" by simp
    show ?thesis
    proof (cases "ret \<le> 0")
      case r0: True
      show ?thesis
      proof (cases "err = SSL_ERROR_WANT_READ \<or> err = SSL_ERROR_WANT_WRITE")
        case w: True
        with r0 sr True 1(3) have call: "tls_read_loop w1 len got = (r, bs, w')"
          by (simp add: tls_read_loop.simps [of w len got] Let_def)
        from 1(1) [OF True refl refl sr [symmetric] refl refl r0 w call 1(4)] eff show ?thesis by simp
      next
        case False
        with r0 sr True 1(3) eff show ?thesis
          by (auto simp add: tls_read_loop.simps [of w len got] Let_def)
      qed
    next
      case r1: False
      with sr True 1(3) have call: "tls_read_loop w1 len (got @ bs1) = (r, bs, w')"
        by (simp add: tls_read_loop.simps [of w len got] Let_def)
      from lb True have "length (got @ bs1) \<le> len" by (auto split: if_splits)
      from 1(2) [OF True refl refl sr [symmetric] refl refl r1 call this] eff show ?thesis by simp
    qed
  qed
qed

lemma rioc_tls_read_eff:
  "rioc_tls_read tls w ok len = (r, bs, w') \<Longrightarrow>
     tx_wire w' = tx_wire w \<and> (r = int len \<longrightarrow> length bs = len)"
  by (auto simp: rioc_tls_read_def split: option.splits if_splits dest: tls_read_loop_eff)

lemma sync_read_eff:
  "sync_read c w len = (r, bs, w') \<Longrightarrow>
     tx_wire w' = tx_wire w \<and> (r = int len \<longrightarrow> length bs = len)"
  by (auto simp: sync_read_def split: option.splits dest: rioc_tls_read_eff sys_recv_eff)

lemma recv_range_results_tx:
  assumes rd: "\<And>w len r bs w'. rd w len = (r, bs, w') \<Longrightarrow> tx_wire w' = tx_wire w"
  shows "recv_range_results rd w k offset acc = (res, w') \<Longrightarrow> tx_wire w' = tx_wire w"
proof (induction k arbitrary: w offset acc)
  case 0
  then show ?case by simp
next
  case (Suc k)
  from Suc.prems show ?case
    by (auto simp: Let_def split: prod.splits if_splits bool.splits
             dest!: rd acquire_eff Suc.IH)
qed

lemma start_thread_eff:
  "start_thread w tr = (res, w') \<Longrightarrow>
     tx_wire w' = tx_wire w \<and> io_calls w' = io_calls w \<and> (res = None \<or> res = Some tr)"
  by (auto simp: start_thread_def split: prod.splits bool.splits dest: acquire_eff)

lemma execute_async_wire:
  assumes "rioc_batch_execute_async w (Some b) = Some (Some tr, b', w')"
  shows "tx_wire w' = tx_wire w @
           concat (batch_iovs (b \<lparr> b_batch_header := (b_batch_header b) \<lparr> bh_count := of_nat (b_count b) \<rparr> \<rparr>)) \<and>
         tr = \<lparr> t_batch = b \<lparr> b_batch_header := (b_batch_header b) \<lparr> bh_count := of_nat (b_count b) \<rparr> \<rparr>,
                 t_completed = 0, t_error = 0, t_responses_received = 0 \<rparr>"
proof -
  let ?b1 = "b \<lparr> b_batch_header := (b_batch_header b) \<lparr> bh_count := of_nat (b_count b) \<rparr> \<rparr>"
  let ?tr = "\<lparr> t_batch = ?b1, t_completed = 0, t_error = 0, t_responses_received = 0 \<rparr>"
  obtain ok1 w1 where a1: "acquire w = (ok1, w1)" by (cases "acquire w") auto
  obtain ok2 w2 where a2: "acquire w1 = (ok2, w2)" by (cases "acquire w1") auto
  from assms a1 a2 have ok: "ok1" "ok2" "b_count b \<noteq> 0"
    by (auto simp: rioc_batch_execute_async_def Let_def split: if_splits bool.splits prod.splits option.splits)
  from acquire_eff [OF a1] acquire_eff [OF a2] have w2: "tx_wire w2 = tx_wire w" by simp
  have b1: "cl_tls (b_client ?b1) = cl_tls (b_client b)" by simp
  show ?thesis
  proof (cases "cl_tls (b_client b)")
    case None
    with assms a1 a2 ok obtain r w3 where
      snd: "writev_all w2 (batch_iovs ?b1) = Some (r, w3)" "\<not> r < 0" and
      st: "start_thread w3 ?tr = (Some tr, w')"
      by (auto simp: rioc_batch_execute_async_def Let_def split: option.splits if_splits prod.splits bool.splits)
    from writev_all_wire [OF snd(1)] snd(2) start_thread_eff [OF st] w2 show ?thesis by auto
  next
    case (Some t)
    with assms a1 a2 ok obtain r w3 where
      snd: "rioc_tls_writev (Some t) w2 (Some (batch_iovs ?b1)) = (r, w3)" "\<not> r < 0" and
      st: "start_thread w3 ?tr = (Some tr, w')"
      by (auto simp: rioc_batch_execute_async_def Let_def split: option.splits if_splits prod.splits bool.splits)
    from rioc_tls_writev_wire [OF snd(1)] snd(2) start_thread_eff [OF st] w2 show ?thesis by auto
  qed
qed


lemma range_query_recv_tx:
  "range_query_recv c w1 = (res, w') \<Longrightarrow> tx_wire w' = tx_wire w1"
  unfolding range_query_recv_def Let_def
  by (auto split: prod.splits if_splits bool.splits run.splits sum.splits
           dest!: sync_read_eff acquire_eff recv_range_results_tx [of "sync_read c", rotated])

lemma range_query_wire:
  assumes "rioc_range_query (Some c) w start_key end_key ro co = Some (Ret (r, res, n), w')"
    and "r \<noteq> RIOC_ERR_IO" "r \<noteq> RIOC_ERR_PARAM"
  shows "tx_wire w' = tx_wire w @
           batch_header_bytes \<lparr> bh_magic = RIOC_MAGIC, bh_version = RIOC_VERSION, bh_count = 1, bh_flags = 6 \<rparr> @
           op_header_bytes \<lparr> oh_command = RIOC_CMD_RANGE_QUERY, oh_key_len = of_nat (cbuf_len start_key),
                             oh_value_len = of_nat (cbuf_len end_key), oh_timestamp = 0 \<rparr> @
           cbuf_bytes start_key @ cbuf_bytes end_key"
proof -
  let ?bh = "batch_header_bytes \<lparr> bh_magic = RIOC_MAGIC, bh_version = RIOC_VERSION, bh_count = 1, bh_flags = 6 \<rparr>"
  let ?oh = "op_header_bytes \<lparr> oh_command = RIOC_CMD_RANGE_QUERY, oh_key_len = of_nat (cbuf_len start_key),
                             oh_value_len = of_nat (cbuf_len end_key), oh_timestamp = 0 \<rparr>"
  let ?iovs = "[?bh, ?oh, cbuf_bytes start_key, cbuf_bytes end_key]"
  from assms have guard: "\<not> (cbuf_null start_key \<or> cbuf_null end_key \<or> \<not> ro \<or> \<not> co \<or>
             cbuf_len start_key > RIOC_MAX_KEY_SIZE \<or> cbuf_len end_key > RIOC_MAX_KEY_SIZE)"
    by (auto simp: rioc_range_query_def split: if_splits)
  have "\<exists>w1. tx_wire w1 = tx_wire w @ concat ?iovs \<and> range_query_recv c w1 = (Ret (r, res, n), w')"
  proof (cases "cl_tls c")
    case None
    with assms guard obtain k w1 where
      snd: "writev_all w ?iovs = Some (k, w1)" "\<not> k < 0" and
      rcv: "range_query_recv c w1 = (Ret (r, res, n), w')"
      by (auto simp: rioc_range_query_def Let_def split: option.splits if_splits prod.splits
               simp del: concat.simps)
    from writev_all_wire [OF snd(1)] snd(2) rcv show ?thesis by auto
  next
    case (Some t)
    with assms guard obtain w1 where
      snd: "tls_send_iovs (Some t) w ?iovs = (RIOC_SUCCESS, w1)" and
      rcv: "range_query_recv c w1 = (Ret (r, res, n), w')"
      by (auto simp: rioc_range_query_def Let_def split: option.splits if_splits prod.splits
               simp del: concat.simps tls_send_iovs.simps)
    from tls_send_iovs_wire [OF snd] rcv show ?thesis by auto
  qed
  then obtain w1 where "tx_wire w1 = tx_wire w @ concat ?iovs" "range_query_recv c w1 = (Ret (r, res, n), w')"
    by blast
  with range_query_recv_tx [of c w1 "Ret (r, res, n)" w'] show ?thesis by simp
qed

subsection \<open>What a read returns\<close>

text \<open>
  A read that returns the length asked for has stored that many bytes, and its return
  value fits a \<open>ssize_t\<close> unless it is the number of bytes stored.
\<close>

lemma recv_all_loop_eff:
  "recv_all_loop w len got = (n, bs, w') \<Longrightarrow> length got \<le> len \<Longrightarrow>
     (n = int len \<longrightarrow> length bs = len) \<and> - (2 ^ 63) \<le> n \<and> n < 2 ^ 63"
proof (induction w len got rule: recv_all_loop.induct)
  case (1 w len got)
  show ?case
  proof (cases "len - length got > 0")
    case False
    with 1(4,5) ssize_of_size_range [of len] show ?thesis
      by (auto simp add: recv_all_loop.simps [of w len got])
  next
    case True
    let ?cs = "if len - length got > 65536 then 65536 else len - length got"
    obtain r1 bs1 w1 where sr: "sys_recv w ?cs = (r1, bs1, w1)"
      by (cases "sys_recv w ?cs") auto
    from sys_recv_plan [OF sr] have lb: "length bs1 \<le> ?cs" by simp
    show ?thesis
    proof (cases "r1 \<le> 0")
      case r0: True
      show ?thesis
      proof (cases "errno w1 = RIOC_EINTR")
        case e1: True
        with r0 sr True 1(4) have call: "recv_all_loop w1 len got = (n, bs, w')"
          by (simp add: recv_all_loop.simps [of w len got] Let_def)
        from 1(1) [OF True refl refl sr [symmetric] refl r0 e1 call 1(5)] show ?thesis .
      next
        case e1: False
        show ?thesis
        proof (cases "errno w1 = RIOC_EAGAIN \<or> errno w1 = RIOC_EWOULDBLOCK")
          case e2: True
          with r0 e1 sr True 1(4) have call: "recv_all_loop w1 len got = (n, bs, w')"
            by (simp add: recv_all_loop.simps [of w len got] Let_def)
          from 1(2) [OF True refl refl sr [symmetric] refl r0 e1 e2 call 1(5)] show ?thesis .
        next
          case False
          with r0 e1 sr True 1(4) show ?thesis
            by (auto simp add: recv_all_loop.simps [of w len got] Let_def)
        qed
      qed
    next
      case r1: False
      with sr True 1(4) have call: "recv_all_loop w1 len (got @ bs1) = (n, bs, w')"
        by (simp add: recv_all_loop.simps [of w len got] Let_def)
      from lb True have "length (got @ bs1) \<le> len" by (auto split: if_splits)
      from 1(3) [OF True refl refl sr [symmetric] refl r1 call this] show ?thesis .
    qed
  qed
qed


lemma tls_read_ret:
  assumes "rioc_tls_read tls w ok len = (n, bs, w')"
  shows "(n = int len \<longrightarrow> length bs = len) \<and> - (2 ^ 63) \<le> n \<and> n < 2 ^ 63"
proof (cases "\<exists>t. tls = Some t \<and> tls_ssl t \<and> ok")
  case False
  with assms show ?thesis by (auto simp: rioc_tls_read_def split: option.splits if_splits)
next
  case True
  with assms have "tls_read_loop w len [] = (n, bs, w')" by (auto simp: rioc_tls_read_def)
  from tls_read_loop_eff [OF this] int_of_size_range [of "length bs"] show ?thesis by auto
qed

definition read_ok :: "(world \<Rightarrow> nat \<Rightarrow> int \<times> byte list \<times> world) \<Rightarrow> bool" where
  "read_ok rd \<longleftrightarrow>
     (\<forall>w len n bs w'. rd w len = (n, bs, w') \<longrightarrow>
        (n = int len \<longrightarrow> length bs = len) \<and> - (2 ^ 63) \<le> n \<and> (n < 2 ^ 63 \<or> n = int (length bs)))"

lemma sys_recv_ret:
  "sys_recv w len = (n, bs, w') \<Longrightarrow>
     (n = int len \<longrightarrow> length bs = len) \<and> - (2 ^ 63) \<le> n \<and> (n < 2 ^ 63 \<or> n = int (length bs))"
  by (auto dest!: sys_recv_eff)

lemma batch_read_ok: "read_ok (batch_read c)"
  unfolding read_ok_def
proof (intro allI impI)
  fix w len n bs w'
  assume run: "batch_read c w len = (n, bs, w')"
  show "(n = int len \<longrightarrow> length bs = len) \<and> - (2 ^ 63) \<le> n \<and> (n < 2 ^ 63 \<or> n = int (length bs))"
  proof (cases "cl_tls c")
    case (Some t)
    with run have "rioc_tls_read (Some t) w True len = (n, bs, w')" by (simp add: batch_read_def)
    from tls_read_ret [OF this] show ?thesis by simp
  next
    case None
    show ?thesis
    proof (cases "len \<le> 4096")
      case True
      with None run have "sys_recv w len = (n, bs, w')" by (simp add: batch_read_def recv_all_def)
      from sys_recv_ret [OF this] show ?thesis .
    next
      case False
      with None run have "recv_all_loop w len [] = (n, bs, w')" by (simp add: batch_read_def recv_all_def)
      from recv_all_loop_eff [OF this] show ?thesis by simp
    qed
  qed
qed

lemma sync_read_ok: "read_ok (sync_read c)"
  unfolding read_ok_def
proof (intro allI impI)
  fix w len n bs w'
  assume run: "sync_read c w len = (n, bs, w')"
  show "(n = int len \<longrightarrow> length bs = len) \<and> - (2 ^ 63) \<le> n \<and> (n < 2 ^ 63 \<or> n = int (length bs))"
  proof (cases "cl_tls c")
    case (Some t)
    with run have "rioc_tls_read (Some t) w True len = (n, bs, w')" by (simp add: sync_read_def)
    from tls_read_ret [OF this] show ?thesis by simp
  next
    case None
    with run have "sys_recv w len = (n, bs, w')" by (simp add: sync_read_def)
    from sys_recv_ret [OF this] show ?thesis .
  qed
qed

lemma read_okD:
  "read_ok rd \<Longrightarrow> rd w len = (n, bs, w') \<Longrightarrow> n = int len \<Longrightarrow> length bs = len"
  unfolding read_ok_def by blast

lemma read_ok_mod:
  assumes "read_ok rd" "rd w len = (n, bs, w')" "n mod 2 ^ 64 = int len" "length bs < 2 ^ 63" "len < 2 ^ 63"
  shows "length bs = len"
proof -
  from assms(1,2) have a: "n = int len \<longrightarrow> length bs = len" "- (2 ^ 63) \<le> n"
    "n < 2 ^ 63 \<or> n = int (length bs)"
    unfolding read_ok_def by blast+
  from a(3) assms(4) have u: "n < 2 ^ 63" by auto
  show ?thesis
  proof (cases "0 \<le> n")
    case True
    with u have "n mod 2 ^ 64 = n" by simp
    with assms(3) a(1) show ?thesis by simp
  next
    case False
    with a(2) have "(n + 2 ^ 64) mod 2 ^ 64 = n + 2 ^ 64"
      by (intro mod_pos_pos_trivial) auto
    then have "n mod 2 ^ 64 = n + 2 ^ 64" by simp
    with assms(3,5) a(2) show ?thesis by simp
  qed
qed


subsection \<open>Received values\<close>

text \<open>
  A buffer for \<open>len\<close> bytes with a terminator: one cell more than \<open>len\<close>, and the cell
  at index \<open>len\<close> holds \<open>'\0'\<close>.
\<close>

definition nul_terminated :: "cell list \<Rightarrow> nat \<Rightarrow> bool" where
  "nul_terminated buf len \<longleftrightarrow> length buf = len + 1 \<and> buf ! len = Some 0"

definition entry_terminated :: "rioc_range_result \<Rightarrow> bool" where
  "entry_terminated r \<longleftrightarrow>
     nul_terminated (rr_key r) (rr_key_len r) \<and> nul_terminated (rr_value r) (rr_value_len r)"

lemma nul_terminated_copy: "length bs = n \<Longrightarrow> nul_terminated (map Some bs @ [Some 0]) n"
  by (auto simp: nul_terminated_def nth_append)

lemma recv_range_results_entries:
  assumes rd: "read_ok rd"
  shows "recv_range_results rd w k offset acc = (Ret (Inr rs), w') \<Longrightarrow>
           \<exists>new. rs = acc @ new \<and> length new = k \<and> list_all entry_terminated new"
proof (induction k arbitrary: w offset acc)
  case 0
  then show ?case by simp
next
  case (Suc k)
  obtain n1 kl w1 where r1: "rd w 2 = (n1, kl, w1)" by (cases "rd w 2") auto
  obtain n2 kb w2 where r2: "rd w1 (le_nat kl) = (n2, kb, w2)" by (cases "rd w1 (le_nat kl)") auto
  obtain ok3 w3 where a3: "acquire w2 = (ok3, w3)" by (cases "acquire w2") auto
  obtain n3 vl w4 where r3: "rd w3 8 = (n3, vl, w4)" by (cases "rd w3 8") auto
  obtain n4 vb w5 where r4: "rd w4 (le_nat vl) = (n4, vb, w5)" by (cases "rd w4 (le_nat vl)") auto
  obtain ok6 w6 where a6: "acquire w5 = (ok6, w6)" by (cases "acquire w5") auto
  let ?e = "\<lparr> rr_key = map Some kb @ [Some 0], rr_key_len = le_nat kl,
              rr_value = map Some vb @ [Some 0], rr_value_len = le_nat vl \<rparr>"
  from Suc.prems r1 r2 a3 r3 r4 a6
  have c: "n2 = int (le_nat kl)" "n4 mod 2 ^ 64 = int (le_nat vl)"
    "offset + 2 + le_nat kl + 8 + length vb \<le> range_buffer_size"
    "offset + 2 + le_nat kl + 8 + le_nat vl \<le> range_buffer_size"
    "recv_range_results rd w6 k (offset + 2 + le_nat kl + 8 + le_nat vl) (acc @ [?e]) = (Ret (Inr rs), w')"
    by (auto simp: Let_def split: if_splits bool.splits)
  from read_okD [OF rd r2 c(1)] have lk: "length kb = le_nat kl" .
  from c(3,4) have "length vb < 2 ^ 63" "le_nat vl < 2 ^ 63" by simp_all
  from read_ok_mod [OF rd r4 c(2) this] have lv: "length vb = le_nat vl" .
  from lk lv have e: "entry_terminated ?e"
    by (simp add: entry_terminated_def nul_terminated_copy)
  from Suc.IH [OF c(5)] obtain new where
    n: "rs = (acc @ [?e]) @ new" "length new = k" "list_all entry_terminated new" by blast
  from n e have "rs = acc @ (?e # new) \<and> length (?e # new) = Suc k \<and> list_all entry_terminated (?e # new)"
    by simp
  then show ?case by blast
qed

lemma recv_range_results_error:
  "recv_range_results rd w k offset acc = (Ret (Inl e), w') \<Longrightarrow> e = RIOC_ERR_IO \<or> e = RIOC_ERR_MEM"
proof (induction k arbitrary: w offset acc)
  case 0
  then show ?case by simp
next
  case (Suc k)
  from Suc.prems show ?case
    by (auto simp: Let_def split: prod.splits if_splits bool.splits dest!: Suc.IH)
qed


text \<open>
  What one round of the response thread leaves in the slot of its operation, by the
  command of the operation and the length \<open>n\<close> the response header announced: for a
  get or an atomic operation with \<open>n > 0\<close> a fresh block of \<open>n + 1\<close> cells with the
  \<open>n\<close> bytes received, terminated for a get only; for a range query with \<open>n > 0\<close>
  the \<open>n\<close> entries; in every other case the pointer the operation had before.
\<close>

definition slot_filled :: "rioc_batch_op \<Rightarrow> rioc_batch_op \<Rightarrow> bool" where
  "slot_filled op0 op \<longleftrightarrow>
     (let n = rs_value_len (op_response op); cmd = oh_command (op_header op0)
      in if (cmd = RIOC_CMD_GET \<or> cmd = RIOC_CMD_ATOMIC_INC_DEC) \<and> 0 < n then
           \<exists>vb. length vb = n \<and>
                op_value_ptr op = Heap (map Some vb @ [if cmd = RIOC_CMD_GET then Some 0 else None])
         else if cmd = RIOC_CMD_RANGE_QUERY \<and> 0 < n then
           \<exists>rs. length rs = n \<and> list_all entry_terminated rs \<and> op_value_ptr op = Results rs
         else op_value_ptr op = op_value_ptr op0)"

definition step_shape :: "rioc_batch_tracker \<Rightarrow> nat \<Rightarrow> bool \<Rightarrow> rioc_batch_tracker \<Rightarrow> bool" where
  "step_shape t i c t' \<longleftrightarrow>
     b_count (t_batch t') = b_count (t_batch t) \<and>
     (\<forall>j. j \<noteq> i \<longrightarrow> b_ops (t_batch t') j = b_ops (t_batch t) j) \<and>
     op_header (b_ops (t_batch t') i) = op_header (b_ops (t_batch t) i) \<and>
     (c \<longrightarrow> t_responses_received t' = i + 1 \<and> t_error t' = t_error t \<and>
            slot_filled (b_ops (t_batch t) i) (b_ops (t_batch t') i)) \<and>
     (\<not> c \<longrightarrow> t_responses_received t' = t_responses_received t \<and>
              op_value_ptr (b_ops (t_batch t') i) = op_value_ptr (b_ops (t_batch t) i) \<and>
              (t_error t' = RIOC_ERR_IO \<or> t_error t' = RIOC_ERR_MEM))"

lemma response_step_shape:
  assumes run: "response_step w t i = (Ret (c, t'), w')"
  shows "step_shape t i c t'"
proof -
  let ?op = "b_ops (t_batch t) i"
  let ?cl = "b_client (t_batch t)"
  obtain ret hb w1 where h: "batch_read ?cl w 8 = (ret, hb, w1)"
    by (cases "batch_read ?cl w 8") auto
  show ?thesis
  proof (cases "ret = 8")
    case False
    with run h show ?thesis
      by (auto simp: response_step_def Let_def tracker_fail_def step_shape_def)
  next
    case r8: True
    let ?n = "unat (rh_value_len (response_header_of hb))"
    let ?cmd = "oh_command (op_header ?op)"
    let ?op1 = "?op \<lparr> op_response := \<lparr> rs_value_len = ?n, rs_status = sint (rh_status (response_header_of hb)) \<rparr> \<rparr>"
    consider (payload) "(?cmd = RIOC_CMD_GET \<or> ?cmd = RIOC_CMD_ATOMIC_INC_DEC) \<and> 0 < ?n"
      | (range) "\<not> ((?cmd = RIOC_CMD_GET \<or> ?cmd = RIOC_CMD_ATOMIC_INC_DEC) \<and> 0 < ?n)"
                "?cmd = RIOC_CMD_RANGE_QUERY \<and> 0 < ?n"
      | (none) "\<not> ((?cmd = RIOC_CMD_GET \<or> ?cmd = RIOC_CMD_ATOMIC_INC_DEC) \<and> 0 < ?n)"
               "\<not> (?cmd = RIOC_CMD_RANGE_QUERY \<and> 0 < ?n)"
      by blast
    then show ?thesis
    proof cases
      case payload
      obtain ret2 vb w2 where v: "batch_read ?cl w1 ?n = (ret2, vb, w2)"
        by (cases "batch_read ?cl w1 ?n") auto
      obtain ok w3 where a: "acquire w2 = (ok, w3)" by (cases "acquire w2") auto
      from run h r8 payload v a
      have "(\<not> c \<and> (t' = tracker_fail (set_op t i ?op1) RIOC_ERR_IO \<or>
                      t' = tracker_fail (set_op t i ?op1) RIOC_ERR_MEM)) \<or>
            (c \<and> ret2 = int ?n \<and>
               t' = (set_op t i (?op1 \<lparr> op_value_ptr :=
                        Heap (map Some vb @ [if ?cmd = RIOC_CMD_GET then Some 0 else None]) \<rparr>))
                      \<lparr> t_responses_received := i + 1 \<rparr>)"
        by (simp add: response_step_def Let_def split: if_splits bool.splits) 
      then show ?thesis
      proof
        assume "\<not> c \<and> (t' = tracker_fail (set_op t i ?op1) RIOC_ERR_IO \<or>
                      t' = tracker_fail (set_op t i ?op1) RIOC_ERR_MEM)"
        then show ?thesis
          by (auto simp: tracker_fail_def set_op_def step_shape_def)
      next
        assume s: "c \<and> ret2 = int ?n \<and>
               t' = (set_op t i (?op1 \<lparr> op_value_ptr :=
                        Heap (map Some vb @ [if ?cmd = RIOC_CMD_GET then Some 0 else None]) \<rparr>))
                      \<lparr> t_responses_received := i + 1 \<rparr>"
        with read_okD [OF batch_read_ok v] have "length vb = ?n" by simp
        with s payload show ?thesis
          by (auto simp: set_op_def step_shape_def slot_filled_def)
      qed
    next
      case range
      obtain ok2 w2 where a2: "acquire w1 = (ok2, w2)" by (cases "acquire w1") auto
      obtain ok3 w3 where a3: "acquire w2 = (ok3, w3)" by (cases "acquire w2") auto
      obtain res w4 where rr: "recv_range_results (batch_read ?cl) w3 ?n 0 [] = (res, w4)"
        by (cases "recv_range_results (batch_read ?cl) w3 ?n 0 []") auto
      from run h r8 range a2 a3 rr
      have "(\<not> c \<and> t' = tracker_fail (set_op t i ?op1) RIOC_ERR_MEM) \<or>
            (\<not> c \<and> (\<exists>e. res = Ret (Inl e) \<and> t' = tracker_fail (set_op t i ?op1) e)) \<or>
            (c \<and> (\<exists>rs. res = Ret (Inr rs) \<and>
               t' = (set_op t i (?op1 \<lparr> op_value_ptr := Results rs \<rparr>)) \<lparr> t_responses_received := i + 1 \<rparr>))"
        by (simp add: response_step_def Let_def split: if_splits bool.splits run.splits sum.splits)
      then consider
          (mem) "\<not> c" "t' = tracker_fail (set_op t i ?op1) RIOC_ERR_MEM"
        | (err) e where "\<not> c" "res = Ret (Inl e)" "t' = tracker_fail (set_op t i ?op1) e"
        | (ok) rs where "c" "res = Ret (Inr rs)"
               "t' = (set_op t i (?op1 \<lparr> op_value_ptr := Results rs \<rparr>)) \<lparr> t_responses_received := i + 1 \<rparr>"
        by blast
      then show ?thesis
      proof cases
        case mem
        then show ?thesis by (auto simp: tracker_fail_def set_op_def step_shape_def)
      next
        case err
        with recv_range_results_error [of "batch_read ?cl" w3 ?n 0 "[]" e w4] rr
        show ?thesis by (auto simp: tracker_fail_def set_op_def step_shape_def)
      next
        case ok
        with recv_range_results_entries [OF batch_read_ok, of ?cl w3 ?n 0 "[]" rs w4] rr
        have "length rs = ?n" "list_all entry_terminated rs" by auto
        with ok range show ?thesis
          by (auto simp: set_op_def step_shape_def slot_filled_def)
      qed
    next
      case none
      with run h r8
      have "c \<and> t' = (set_op t i ?op1) \<lparr> t_responses_received := i + 1 \<rparr>"
        by (simp add: response_step_def Let_def split: if_splits)
      with none show ?thesis
        by (auto simp: set_op_def step_shape_def slot_filled_def)
    qed
  qed
qed


text \<open>
  The trackers that the response thread started on \<open>t0\<close> can show to a caller of
  \<open>rioc_batch_get_response_async\<close>: \<open>t0\<close> itself, the tracker after each round that
  was made at the index \<open>t_responses_received\<close>, and the tracker after the thread has
  stored its final error code.
\<close>

inductive receiving :: "rioc_batch_tracker \<Rightarrow> rioc_batch_tracker \<Rightarrow> bool" for t0 where
  started: "receiving t0 t0"
| no_buffer: "receiving t0 (t0 \<lparr> t_error := RIOC_ERR_MEM, t_completed := 1 \<rparr>)"
| round:
    "receiving t0 t \<Longrightarrow> t_responses_received t < b_count (t_batch t) \<Longrightarrow>
       response_step w t (t_responses_received t) = (Ret (c, t'), w') \<Longrightarrow> receiving t0 t'"
| all_received:
    "receiving t0 t \<Longrightarrow> \<not> t_responses_received t < b_count (t_batch t) \<Longrightarrow>
       receiving t0 (t \<lparr> t_error := RIOC_SUCCESS, t_completed := 1 \<rparr>)"

definition recv_inv :: "rioc_batch_tracker \<Rightarrow> rioc_batch_tracker \<Rightarrow> bool" where
  "recv_inv t0 t \<longleftrightarrow>
     b_count (t_batch t) = b_count (t_batch t0) \<and>
     (\<forall>j. op_header (b_ops (t_batch t) j) = op_header (b_ops (t_batch t0) j)) \<and>
     (\<forall>j. t_responses_received t \<le> j \<longrightarrow>
          op_value_ptr (b_ops (t_batch t) j) = op_value_ptr (b_ops (t_batch t0) j)) \<and>
     (\<forall>j < t_responses_received t. slot_filled (b_ops (t_batch t0) j) (b_ops (t_batch t) j)) \<and>
     (t_error t = t_error t0 \<or> t_error t = RIOC_SUCCESS \<or> t_error t = RIOC_ERR_IO \<or>
      t_error t = RIOC_ERR_MEM)"

lemma slot_filled_cong:
  "slot_filled op op' \<Longrightarrow> op_header op = op_header op0 \<Longrightarrow> op_value_ptr op = op_value_ptr op0 \<Longrightarrow>
     slot_filled op0 op'"
  by (simp add: slot_filled_def Let_def)

lemma receiving_inv:
  assumes "receiving t0 t" "t_responses_received t0 = 0"
  shows "recv_inv t0 t"
  using assms
proof (induction rule: receiving.induct)
  case started
  then show ?case by (simp add: recv_inv_def)
next
  case no_buffer
  then show ?case by (simp add: recv_inv_def)
next
  case (round t w c t' w')
  let ?i = "t_responses_received t"
  from round.IH [OF round.prems] have inv: "recv_inv t0 t" .
  from response_step_shape [OF round.hyps(3)] have sh: "step_shape t ?i c t'" .
  show ?case
  proof (cases c)
    case True
    with sh have s: "b_count (t_batch t') = b_count (t_batch t)"
      "\<And>j. j \<noteq> ?i \<Longrightarrow> b_ops (t_batch t') j = b_ops (t_batch t) j"
      "op_header (b_ops (t_batch t') ?i) = op_header (b_ops (t_batch t) ?i)"
      "t_responses_received t' = ?i + 1" "t_error t' = t_error t"
      "slot_filled (b_ops (t_batch t) ?i) (b_ops (t_batch t') ?i)"
      by (simp_all add: step_shape_def)
    from inv have i: "b_count (t_batch t) = b_count (t_batch t0)"
      "\<And>j. op_header (b_ops (t_batch t) j) = op_header (b_ops (t_batch t0) j)"
      "\<And>j. ?i \<le> j \<Longrightarrow> op_value_ptr (b_ops (t_batch t) j) = op_value_ptr (b_ops (t_batch t0) j)"
      "\<And>j. j < ?i \<Longrightarrow> slot_filled (b_ops (t_batch t0) j) (b_ops (t_batch t) j)"
      "t_error t = t_error t0 \<or> t_error t = RIOC_SUCCESS \<or> t_error t = RIOC_ERR_IO \<or>
       t_error t = RIOC_ERR_MEM"
      by (simp_all add: recv_inv_def)
    have h: "op_header (b_ops (t_batch t') j) = op_header (b_ops (t_batch t0) j)" for j
      using s(2) [of j] s(3) i(2) [of j] by (cases "j = ?i") auto
    have p: "op_value_ptr (b_ops (t_batch t') j) = op_value_ptr (b_ops (t_batch t0) j)"
      if "t_responses_received t' \<le> j" for j
      using that s(2) [of j] s(4) i(3) [of j] by simp
    have f: "slot_filled (b_ops (t_batch t0) j) (b_ops (t_batch t') j)"
      if "j < t_responses_received t'" for j
    proof (cases "j = ?i")
      case True
      with slot_filled_cong [OF s(6) i(2) [of ?i] i(3) [of ?i]] show ?thesis by simp
    next
      case False
      with that s(4) have "j < ?i" by simp
      with i(4) [of j] s(2) [of j] False show ?thesis by simp
    qed
    from s(1) i(1) h p f s(5) i(5) show ?thesis
      unfolding recv_inv_def by simp
  next
    case False
    with sh have s: "b_count (t_batch t') = b_count (t_batch t)"
      "\<And>j. j \<noteq> ?i \<Longrightarrow> b_ops (t_batch t') j = b_ops (t_batch t) j"
      "op_header (b_ops (t_batch t') ?i) = op_header (b_ops (t_batch t) ?i)"
      "t_responses_received t' = ?i"
      "op_value_ptr (b_ops (t_batch t') ?i) = op_value_ptr (b_ops (t_batch t) ?i)"
      "t_error t' = RIOC_ERR_IO \<or> t_error t' = RIOC_ERR_MEM"
      by (simp_all add: step_shape_def)
    from inv have i: "b_count (t_batch t) = b_count (t_batch t0)"
      "\<And>j. op_header (b_ops (t_batch t) j) = op_header (b_ops (t_batch t0) j)"
      "\<And>j. ?i \<le> j \<Longrightarrow> op_value_ptr (b_ops (t_batch t) j) = op_value_ptr (b_ops (t_batch t0) j)"
      "\<And>j. j < ?i \<Longrightarrow> slot_filled (b_ops (t_batch t0) j) (b_ops (t_batch t) j)"
      by (simp_all add: recv_inv_def)
    have h: "op_header (b_ops (t_batch t') j) = op_header (b_ops (t_batch t0) j)" for j
      using s(2) [of j] s(3) i(2) [of j] by (cases "j = ?i") auto
    have p: "op_value_ptr (b_ops (t_batch t') j) = op_value_ptr (b_ops (t_batch t0) j)"
      if "t_responses_received t' \<le> j" for j
      using that s(2) [of j] s(4) s(5) i(3) [of j] by (cases "j = ?i") auto
    have f: "slot_filled (b_ops (t_batch t0) j) (b_ops (t_batch t') j)"
      if "j < t_responses_received t'" for j
      using that s(4) i(4) [of j] s(2) [of j] by simp
    from s(1) i(1) h p f s(6) show ?thesis
      unfolding recv_inv_def by auto
  qed
next
  case (all_received t)
  from all_received.IH [OF all_received.prems] show ?case by (simp add: recv_inv_def)
qed

lemma response_loop_receiving:
  "response_loop w t i = (Ret t', w') \<Longrightarrow> receiving t0 t \<Longrightarrow> t_responses_received t = i \<Longrightarrow>
     receiving t0 t'"
proof (induction w t i rule: response_loop.induct)
  case (1 w t i)
  show ?case
  proof (cases "i < b_count (t_batch t)")
    case False
    with 1(2) have "t' = t \<lparr> t_error := RIOC_SUCCESS, t_completed := 1 \<rparr>"
      by (simp add: response_loop.simps [of w t i])
    with receiving.all_received [OF 1(3)] False 1(4) show ?thesis by simp
  next
    case True
    obtain res w1 where st: "response_step w t i = (res, w1)" by (cases "response_step w t i") auto
    with True 1(2) obtain c t1 where r: "res = Ret (c, t1)"
      by (cases res) (auto simp add: response_loop.simps [of w t i])
    from st r 1(4) have st': "response_step w t (t_responses_received t) = (Ret (c, t1), w1)" by simp
    from True 1(4) have lt: "t_responses_received t < b_count (t_batch t)" by simp
    note rcv = receiving.round [OF 1(3) lt st']
    show ?thesis
    proof (cases c)
      case False
      with st r True 1(2) have "t' = t1" by (simp add: response_loop.simps [of w t i])
      with rcv show ?thesis by simp
    next
      case True
      with st r \<open>i < b_count (t_batch t)\<close> 1(2) have call: "response_loop w1 t1 (i + 1) = (Ret t', w')"
        by (simp add: response_loop.simps [of w t i])
      from response_step_shape [OF st'] True 1(4) have "t_responses_received t1 = i + 1"
        by (simp add: step_shape_def)
      from 1(1) [OF \<open>i < b_count (t_batch t)\<close> st [symmetric] r _ _ call rcv this] True show ?thesis
        by simp
    qed
  qed
qed

lemma response_thread_receiving:
  assumes "response_thread_func w t0 = (Ret t', w')" "t_responses_received t0 = 0"
  shows "receiving t0 t'"
proof -
  obtain ok w1 where a: "acquire w = (ok, w1)" by (cases "acquire w") auto
  show ?thesis
  proof (cases ok)
    case False
    with assms a have "t' = t0 \<lparr> t_error := RIOC_ERR_MEM, t_completed := 1 \<rparr>"
      by (simp add: response_thread_func_def)
    then show ?thesis by (simp add: receiving.no_buffer)
  next
    case True
    with assms a have "response_loop w1 t0 0 = (Ret t', w')" by (simp add: response_thread_func_def)
    from response_loop_receiving [OF this receiving.started assms(2)] show ?thesis .
  qed
qed



section \<open>Runs in a world without scripted events\<close>

lemma sys_send_idle:
  "tx_plan w = [] \<Longrightarrow>
     sys_send w bs = (int (length bs), w \<lparr> tx_wire := tx_wire w @ bs, io_calls := io_calls w + 1 \<rparr>)"
  by (simp add: sys_send_def)

lemma writev_small_loop_idle:
  assumes "tx_plan w = []" "buf \<noteq> []"
  shows "writev_small_loop w buf 0 =
           (int (length buf), w \<lparr> tx_wire := tx_wire w @ buf, io_calls := io_calls w + 1 \<rparr>)"
proof -
  let ?w1 = "w \<lparr> tx_wire := tx_wire w @ buf, io_calls := io_calls w + 1 \<rparr>"
  have "writev_small_loop w buf 0 = writev_small_loop ?w1 buf (length buf)"
    using assms by (simp add: writev_small_loop.simps [of w buf 0] sys_send_idle)
  also have "\<dots> = (int (length buf), ?w1)"
    by (subst writev_small_loop.simps) simp
  finally show ?thesis .
qed

lemma execute_async_idle:
  assumes "tx_plan w = []" "res_plan w = []" "cl_tls (b_client b) = None" "0 < b_count b"
    and "b' = b \<lparr> b_batch_header := (b_batch_header b) \<lparr> bh_count := of_nat (b_count b) \<rparr> \<rparr>"
    and "length (concat (batch_iovs b')) \<le> 4096" "concat (batch_iovs b') \<noteq> []"
  shows "rioc_batch_execute_async w (Some b) =
           Some (Some \<lparr> t_batch = b', t_completed = 0, t_error = 0, t_responses_received = 0 \<rparr>,
                 Some b',
                 w \<lparr> tx_wire := tx_wire w @ concat (batch_iovs b'), io_calls := io_calls w + 1 \<rparr>)"
  using assms
  by (simp add: rioc_batch_execute_async_def acquire_def Let_def writev_all_def
        writev_small_loop_idle start_thread_def)

lemma iov_advance_all:
  "iov \<noteq> [] \<Longrightarrow> last iov \<noteq> [] \<Longrightarrow> iov_advance iov (length (concat iov)) = []"
proof (induction iov)
  case Nil
  then show ?case by simp
next
  case (Cons v vs)
  show ?case
  proof (cases "vs = []")
    case True
    with Cons.prems show ?thesis by simp
  next
    case False
    with Cons.prems have l: "last vs \<noteq> []" by simp
    then have "concat vs \<noteq> []" using False
      by (metis concat_eq_Nil_conv last_in_set)
    with Cons.IH [OF False l] show ?thesis by simp
  qed
qed

lemma writev_loop_idle:
  assumes "tx_plan w = []" "iov \<noteq> []" "last iov \<noteq> []"
  shows "writev_loop w iov tot =
           Some (int (tot + length (concat iov)),
                 w \<lparr> tx_wire := tx_wire w @ concat iov, io_calls := io_calls w + 1 \<rparr>)"
proof -
  from assms have ne: "concat iov \<noteq> []" by (metis concat_eq_Nil_conv last_in_set)
  let ?w1 = "w \<lparr> tx_wire := tx_wire w @ concat iov, io_calls := io_calls w + 1 \<rparr>"
  have "writev_loop w iov tot = writev_loop ?w1 [] (tot + length (concat iov))"
    using assms ne by (subst writev_loop.simps) (auto simp add: sys_send_idle iov_advance_all)
  also have "\<dots> = Some (int (tot + length (concat iov)), ?w1)"
    by (subst writev_loop.simps) simp
  finally show ?thesis .
qed

lemma sys_recv_idle_empty:
  "rx_plan w = [] \<Longrightarrow> rx_wire w = [] \<Longrightarrow> 0 < len \<Longrightarrow>
     sys_recv w len = (- 1, [], w \<lparr> errno := ECONNRESET, tx_plan := [Down], io_calls := io_calls w + 1 \<rparr>)"
  by (simp add: sys_recv_def)

lemma send_op_plain_loop_idle:
  assumes "tx_plan w = []" "buf \<noteq> []"
  shows "send_op_plain_loop w buf 0 =
           (RIOC_SUCCESS, w \<lparr> tx_wire := tx_wire w @ buf, io_calls := io_calls w + 1 \<rparr>)"
proof -
  let ?w1 = "w \<lparr> tx_wire := tx_wire w @ buf, io_calls := io_calls w + 1 \<rparr>"
  have "send_op_plain_loop w buf 0 = send_op_plain_loop ?w1 buf (length buf)"
    using assms by (simp add: send_op_plain_loop.simps [of w buf 0] sys_send_idle)
  also have "\<dots> = (RIOC_SUCCESS, ?w1)"
    by (subst send_op_plain_loop.simps) simp
  finally show ?thesis .
qed

lemma sys_recv_idle:
  "rx_plan w = [] \<Longrightarrow> rx_wire w \<noteq> [] \<Longrightarrow>
     sys_recv w len = (int (length (take len (rx_wire w))), take len (rx_wire w),
                       w \<lparr> rx_wire := drop len (rx_wire w), io_calls := io_calls w + 1 \<rparr>)"
  by (simp add: sys_recv_def)

text \<open>
  What \<open>rioc_batch_get_response_async\<close> hands out for a slot below the number of
  responses received.
\<close>

lemma result_of_received_slot:
  assumes "rioc_batch_get_response_async (Some t) i True True = (st, Some (v, n))"
  shows "i < t_responses_received t \<and> i < b_count (t_batch t) \<and>
         st = rs_status (op_response (b_ops (t_batch t) i)) \<and>
         v = op_value_ptr (b_ops (t_batch t) i) \<and>
         n = rs_value_len (op_response (b_ops (t_batch t) i))"
  using assms by (auto simp: rioc_batch_get_response_async_def Let_def split: if_splits)

lemma received_slot:
  assumes "receiving t0 t" "t_responses_received t0 = 0"
    and "rioc_batch_get_response_async (Some t) i True True = (st, Some (v, n))"
  shows "i < b_count (t_batch t0) \<and>
         (let cmd = oh_command (op_header (b_ops (t_batch t0) i))
          in if (cmd = RIOC_CMD_GET \<or> cmd = RIOC_CMD_ATOMIC_INC_DEC) \<and> 0 < n then
               \<exists>vb. length vb = n \<and> v = Heap (map Some vb @ [if cmd = RIOC_CMD_GET then Some 0 else None])
             else if cmd = RIOC_CMD_RANGE_QUERY \<and> 0 < n then
               \<exists>rs. length rs = n \<and> list_all entry_terminated rs \<and> v = Results rs
             else v = op_value_ptr (b_ops (t_batch t0) i))"
proof -
  note r = result_of_received_slot [OF assms(3)]
  from receiving_inv [OF assms(1,2)] have inv: "recv_inv t0 t" .
  from inv r have "slot_filled (b_ops (t_batch t0) i) (b_ops (t_batch t) i)"
    by (simp add: recv_inv_def)
  moreover from inv r have "i < b_count (t_batch t0)" by (simp add: recv_inv_def)
  ultimately show ?thesis using r by (simp add: slot_filled_def Let_def)
qed




section \<open>Example inputs\<close>

text \<open>
  A client on a plain socket, a world in which nothing is scripted and no byte waits,
  and the batch that \<open>rioc_batch_create\<close> returns there.
\<close>

definition example_client :: rioc_client where
  "example_client = \<lparr> cl_fd = 3, cl_sequence = 0, cl_tls = None \<rparr>"

definition idle_world :: world where
  "idle_world = \<lparr> tx_wire = [], rx_wire = [], tx_plan = [], rx_plan = [], res_plan = [],
                   errno = 0, io_calls = 0 \<rparr>"

definition fresh_batch :: rioc_batch where
  "fresh_batch = the (fst (rioc_batch_create idle_world example_client))"

lemma fresh_batch_fields:
  "b_count fresh_batch = 0" "b_client fresh_batch = example_client"
  "b_batch_header fresh_batch =
     \<lparr> bh_magic = RIOC_MAGIC, bh_version = RIOC_VERSION, bh_count = 0, bh_flags = 6 \<rparr>"
  "b_ops fresh_batch = (\<lambda>i. zero_op)"
  by (simp_all add: fresh_batch_def rioc_batch_create_def acquire_def idle_world_def)

definition one_get_batch :: "rioc_batch option" where
  "one_get_batch = snd (rioc_batch_add_get (Some fresh_batch) (Buf [0x6B]))"

definition one_get_op :: rioc_batch_op where
  "one_get_op = \<lparr> op_header = \<lparr> oh_command = RIOC_CMD_GET, oh_key_len = 1, oh_value_len = 0,
                                 oh_timestamp = 0 \<rparr>,
                  op_key = key_write (\<lambda>i. 0) [0x6B], op_value_ptr = Null, op_value_offset = 0,
                  op_response = \<lparr> rs_value_len = 0, rs_status = 0 \<rparr> \<rparr>"

lemma one_get_batch_eq:
  "one_get_batch = Some (fresh_batch \<lparr> b_ops := (b_ops fresh_batch)(0 := one_get_op), b_count := 1 \<rparr>)"
  by (simp add: one_get_batch_def rioc_batch_add_get_def batch_add_op_def fresh_batch_fields zero_op_def
        Let_def one_get_op_def)

definition one_get_sent :: rioc_batch where
  "one_get_sent = fresh_batch \<lparr> b_ops := (b_ops fresh_batch)(0 := one_get_op), b_count := 1,
       b_batch_header := \<lparr> bh_magic = RIOC_MAGIC, bh_version = RIOC_VERSION, bh_count = 1, bh_flags = 6 \<rparr> \<rparr>"

lemma one_get_iovs:
  "batch_iovs one_get_sent =
     [[67, 73, 79, 82, 2, 0, 1, 0, 6, 0, 0, 0], [1, 0, 1, 0, 0, 0, 0, 0, 0, 0, 0, 0, 0, 0, 0, 0], [0x6B]]"
  by (simp add: one_get_sent_def batch_iovs_def op_iovs_def fresh_batch_fields batch_header_bytes_def
        op_header_bytes_def u16_bytes_def u32_bytes_def u64_bytes_def key_write_def one_get_op_def)

lemma one_get_submit:
  "rioc_batch_execute_async idle_world one_get_batch =
     Some (Some \<lparr> t_batch = one_get_sent, t_completed = 0, t_error = 0, t_responses_received = 0 \<rparr>,
           Some one_get_sent,
           idle_world \<lparr> tx_wire := concat (batch_iovs one_get_sent), io_calls := 1 \<rparr>)"
proof -
  let ?b = "fresh_batch \<lparr> b_ops := (b_ops fresh_batch)(0 := one_get_op), b_count := 1 \<rparr>"
  have "one_get_sent = ?b \<lparr> b_batch_header := (b_batch_header ?b) \<lparr> bh_count := of_nat (b_count ?b) \<rparr> \<rparr>"
    by (simp add: one_get_sent_def fresh_batch_fields)
  from execute_async_idle [of idle_world ?b one_get_sent, OF _ _ _ _ this]
  show ?thesis
    by (simp add: one_get_batch_eq one_get_iovs idle_world_def fresh_batch_fields example_client_def)
qed

definition one_get_tracker :: rioc_batch_tracker where
  "one_get_tracker = the (fst (the (rioc_batch_execute_async idle_world one_get_batch)))"

lemma one_get_tracker_eq:
  "one_get_tracker = \<lparr> t_batch = one_get_sent, t_completed = 0, t_error = 0, t_responses_received = 0 \<rparr>"
  by (simp add: one_get_tracker_def one_get_submit)

lemma insert_100001_add:
  "fst (rioc_batch_add_insert (Some fresh_batch) (Buf [0x6B]) (Buf (replicate 100001 0)) 1) = RIOC_SUCCESS"
  by (simp add: rioc_batch_add_insert_def batch_add_op_def fresh_batch_fields Let_def)

lemma insert_100001_sync:
  "rioc_insert (Some example_client) idle_world (Buf [0x6B]) (Buf (replicate 100001 0)) 1 =
     Some (RIOC_ERR_IO,
           idle_world \<lparr> tx_wire := [67, 73, 79, 82, 2, 0, 1, 0, 6, 0, 0, 0] @
                                   [2, 0, 1, 0, 161, 134, 1, 0, 1, 0, 0, 0, 0, 0, 0, 0] @ [0x6B] @
                                   replicate 100001 0,
                        tx_plan := [Down], errno := ECONNRESET, io_calls := 2 \<rparr>)"
  by (simp add: rioc_insert_def send_op_def Let_def example_client_def writev_all_def writev_loop_idle
        idle_world_def batch_header_bytes_def op_header_bytes_def u16_bytes_def u32_bytes_def u64_bytes_def
        recv_response_def sync_read_def sys_recv_idle_empty)

text \<open>A connected TLS context.\<close>

definition example_tls :: rioc_tls_context where
  "example_tls = \<lparr> tls_ctx = True, tls_ssl = True, tls_is_server = False \<rparr>"

text \<open>
  A get whose \<open>recv\<close> is interrupted by a signal: the request is sent, \<open>recv\<close> returns
  -1 with \<open>EINTR\<close>, and the call fails with \<open>RIOC_ERR_IO\<close>. The connection is as it
  was. \<open>after_failed_get\<close> is the world the call leaves.
\<close>

lemma get_request_sent:
  "send_op example_client idle_world RIOC_CMD_GET (Buf [0x6B]) (NullPtr 0) 0 =
     Some (RIOC_SUCCESS,
           idle_world \<lparr> tx_wire := [67, 73, 79, 82, 2, 0, 1, 0, 6, 0, 0, 0,
                                     1, 0, 1, 0, 0, 0, 0, 0, 0, 0, 0, 0, 0, 0, 0, 0, 0x6B],
                        io_calls := 1 \<rparr>)"
  by (simp add: send_op_def Let_def example_client_def send_op_plain_loop_idle idle_world_def
        batch_header_bytes_def op_header_bytes_def u16_bytes_def u32_bytes_def u64_bytes_def)










lemma range_request_answered:
  "rioc_range_query (Some example_client) (idle_world \<lparr> rx_wire := [0, 0, 0, 0, 0, 0, 0, 0] \<rparr>)
       (Buf [0x61]) (Buf [0x7A]) True True =
     Some (Ret (RIOC_SUCCESS, None, 0),
           idle_world \<lparr> tx_wire := [67, 73, 79, 82, 2, 0, 1, 0, 6, 0, 0, 0,
                                     6, 0, 1, 0, 1, 0, 0, 0, 0, 0, 0, 0, 0, 0, 0, 0, 0x61, 0x7A],
                        io_calls := 2 \<rparr>)"
  by (simp add: rioc_range_query_def Let_def example_client_def writev_all_def writev_small_loop_idle
        idle_world_def batch_header_bytes_def op_header_bytes_def u16_bytes_def u32_bytes_def u64_bytes_def
        range_query_recv_def sync_read_def sys_recv_idle response_header_of_def)

lemma one_get_assembled: "assembled (the one_get_batch)"
proof -
  have "rioc_batch_create idle_world example_client = (Some fresh_batch, idle_world)"
    by (simp add: fresh_batch_def rioc_batch_create_def acquire_def idle_world_def)
  then have "assembled fresh_batch" by (rule assembled.created)
  moreover have "rioc_batch_add_get (Some fresh_batch) (Buf [0x6B]) = (RIOC_SUCCESS, Some (the one_get_batch))"
    by (simp add: one_get_batch_def rioc_batch_add_get_def batch_add_op_def fresh_batch_fields Let_def)
  ultimately show ?thesis by (rule assembled.added_get)
qed

text \<open>
  The tracker as the response thread leaves it (\<open>None\<close> for a run without defined
  behaviour), and \<open>answered b answer\<close>: the batch \<open>b\<close> is submitted on the idle world,
  the bytes \<open>answer\<close> arrive from the server, and the response thread runs to its end.
\<close>

definition received :: "world \<Rightarrow> rioc_batch_tracker \<Rightarrow> rioc_batch_tracker option" where
  "received w t = (case fst (response_thread_func w t) of Ret t' \<Rightarrow> Some t' | Overrun \<Rightarrow> None)"

definition answered :: "rioc_batch option \<Rightarrow> byte list \<Rightarrow> rioc_batch_tracker option" where
  "answered b answer =
     (case rioc_batch_execute_async idle_world b of
        Some (Some t, b', w) \<Rightarrow> received (w \<lparr> rx_wire := answer \<rparr>) t
      | _ \<Rightarrow> None)"

text \<open>
  A batch with one insert (key \<open>k\<close>, value \<open>v\<close>), its submission, and the run of the
  response thread when the server answers with status -5 and no value.
\<close>

definition one_insert_batch :: "rioc_batch option" where
  "one_insert_batch = snd (rioc_batch_add_insert (Some fresh_batch) (Buf [0x6B]) (Buf [0x76]) 7)"

definition one_insert_op :: rioc_batch_op where
  "one_insert_op = \<lparr> op_header = \<lparr> oh_command = RIOC_CMD_INSERT, oh_key_len = 1, oh_value_len = 1,
                                    oh_timestamp = 7 \<rparr>,
                     op_key = key_write (\<lambda>i. 0) [0x6B], op_value_ptr = Staged 0, op_value_offset = 0,
                     op_response = \<lparr> rs_value_len = 0, rs_status = 0 \<rparr> \<rparr>"

lemma one_insert_batch_eq:
  "one_insert_batch =
     Some (fresh_batch \<lparr> b_ops := (b_ops fresh_batch)(0 := one_insert_op),
                         b_value_buffer := buf_write (b_value_buffer fresh_batch) 0 [0x76],
                         b_count := 1 \<rparr>)"
  by (simp add: one_insert_batch_def rioc_batch_add_insert_def batch_add_op_def fresh_batch_fields zero_op_def
        Let_def one_insert_op_def aligned_offset_def)

definition one_insert_sent :: rioc_batch where
  "one_insert_sent = fresh_batch \<lparr> b_ops := (b_ops fresh_batch)(0 := one_insert_op),
       b_value_buffer := buf_write (b_value_buffer fresh_batch) 0 [0x76], b_count := 1,
       b_batch_header := \<lparr> bh_magic = RIOC_MAGIC, bh_version = RIOC_VERSION, bh_count = 1, bh_flags = 6 \<rparr> \<rparr>"

lemma one_insert_iovs:
  "batch_iovs one_insert_sent =
     [[67, 73, 79, 82, 2, 0, 1, 0, 6, 0, 0, 0], [2, 0, 1, 0, 1, 0, 0, 0, 7, 0, 0, 0, 0, 0, 0, 0], [0x6B], [0x76]]"
  by (simp add: one_insert_sent_def batch_iovs_def op_iovs_def fresh_batch_fields batch_header_bytes_def
        op_header_bytes_def u16_bytes_def u32_bytes_def u64_bytes_def key_write_def one_insert_op_def
        buf_write_def cell_byte_def)

lemma one_insert_submit:
  "rioc_batch_execute_async idle_world one_insert_batch =
     Some (Some \<lparr> t_batch = one_insert_sent, t_completed = 0, t_error = 0, t_responses_received = 0 \<rparr>,
           Some one_insert_sent,
           idle_world \<lparr> tx_wire := concat (batch_iovs one_insert_sent), io_calls := 1 \<rparr>)"
proof -
  let ?b = "fresh_batch \<lparr> b_ops := (b_ops fresh_batch)(0 := one_insert_op),
                         b_value_buffer := buf_write (b_value_buffer fresh_batch) 0 [0x76],
                         b_count := 1 \<rparr>"
  have "one_insert_sent = ?b \<lparr> b_batch_header := (b_batch_header ?b) \<lparr> bh_count := of_nat (b_count ?b) \<rparr> \<rparr>"
    by (simp add: one_insert_sent_def fresh_batch_fields)
  from execute_async_idle [of idle_world ?b one_insert_sent, OF _ _ _ _ this]
  show ?thesis
    by (simp add: one_insert_batch_eq one_insert_iovs idle_world_def fresh_batch_fields example_client_def)
qed

definition one_insert_tracker :: rioc_batch_tracker where
  "one_insert_tracker = the (fst (the (rioc_batch_execute_async idle_world one_insert_batch)))"

lemma one_insert_tracker_eq:
  "one_insert_tracker = \<lparr> t_batch = one_insert_sent, t_completed = 0, t_error = 0, t_responses_received = 0 \<rparr>"
  by (simp add: one_insert_tracker_def one_insert_submit)

lemma acquire_idle: "res_plan w = [] \<Longrightarrow> acquire w = (True, w)"
  by (simp add: acquire_def)

lemma batch_read_idle:
  "cl_tls c = None \<Longrightarrow> rx_plan w = [] \<Longrightarrow> rx_wire w \<noteq> [] \<Longrightarrow> len \<le> 4096 \<Longrightarrow>
     batch_read c w len = (int (length (take len (rx_wire w))), take len (rx_wire w),
                           w \<lparr> rx_wire := drop len (rx_wire w), io_calls := io_calls w + 1 \<rparr>)"
  by (simp add: batch_read_def recv_all_def sys_recv_idle)

lemma insert_refused_run:
  "answered one_insert_batch ([0xFB, 0xFF, 0xFF, 0xFF, 0, 0, 0, 0]) =
     Some \<lparr> t_batch = one_insert_sent \<lparr> b_ops := (b_ops one_insert_sent)
               (0 := one_insert_op \<lparr> op_response := \<lparr> rs_value_len = 0, rs_status = - 5 \<rparr> \<rparr>) \<rparr>,
            t_completed = 1, t_error = 0, t_responses_received = 1 \<rparr>"
  apply (simp add: answered_def one_insert_submit)
  apply (simp add: received_def response_thread_func_def acquire_idle idle_world_def)
  apply (subst response_loop.simps)
  apply (simp add: one_insert_sent_def fresh_batch_fields response_step_def example_client_def
      batch_read_idle response_header_of_def Let_def one_insert_op_def set_op_def)
  apply (subst response_loop.simps)
  apply (simp add: one_insert_sent_def fresh_batch_fields)
  done


text \<open>
  The batch with one get: the server answers with status -6 and no value, with
  status -6 and a value of one byte, and with status 0 and a value of one byte.
\<close>

lemma received_receiving:
  "received w t0 = Some t \<Longrightarrow> t_responses_received t0 = 0 \<Longrightarrow> receiving t0 t"
  using response_thread_receiving [of w t0 t "snd (response_thread_func w t0)"]
  by (cases "response_thread_func w t0") (auto simp: received_def split: run.splits)

lemma answered_receiving:
  assumes "rioc_batch_execute_async idle_world (Some b) = Some (Some t0, b', w)"
    and "answered (Some b) answer = Some t"
  shows "receiving t0 t"
proof -
  from execute_async_wire [OF assms(1)] have "t_responses_received t0 = 0" by simp
  with assms show ?thesis by (simp add: answered_def received_receiving)
qed

lemma get_not_found_run:
  "answered one_get_batch ([0xFA, 0xFF, 0xFF, 0xFF, 0, 0, 0, 0]) =
     Some \<lparr> t_batch = one_get_sent \<lparr> b_ops := (b_ops one_get_sent)
               (0 := one_get_op \<lparr> op_response := \<lparr> rs_value_len = 0, rs_status = - 6 \<rparr> \<rparr>) \<rparr>,
            t_completed = 1, t_error = 0, t_responses_received = 1 \<rparr>"
  apply (simp add: answered_def one_get_submit)
  apply (simp add: received_def response_thread_func_def acquire_idle idle_world_def)
  apply (subst response_loop.simps)
  apply (simp add: one_get_sent_def fresh_batch_fields response_step_def example_client_def
      batch_read_idle response_header_of_def Let_def one_get_op_def set_op_def)
  apply (subst response_loop.simps)
  apply (simp add: one_get_sent_def fresh_batch_fields)
  done

lemma get_error_with_payload_run:
  "answered one_get_batch ([0xFA, 0xFF, 0xFF, 0xFF, 1, 0, 0, 0, 0x76]) =
     Some \<lparr> t_batch = one_get_sent \<lparr> b_ops := (b_ops one_get_sent)
               (0 := one_get_op \<lparr> op_response := \<lparr> rs_value_len = 1, rs_status = - 6 \<rparr>,
                                   op_value_ptr := Heap [Some 0x76, Some 0] \<rparr>) \<rparr>,
            t_completed = 1, t_error = 0, t_responses_received = 1 \<rparr>"
  apply (simp add: answered_def one_get_submit)
  apply (simp add: received_def response_thread_func_def acquire_idle idle_world_def)
  apply (subst response_loop.simps)
  apply (simp add: one_get_sent_def fresh_batch_fields response_step_def example_client_def
      batch_read_idle response_header_of_def Let_def one_get_op_def set_op_def acquire_idle)
  apply (subst response_loop.simps)
  apply (simp add: one_get_sent_def fresh_batch_fields)
  done

lemma get_found_run:
  "answered one_get_batch ([0, 0, 0, 0, 1, 0, 0, 0, 0x76]) =
     Some \<lparr> t_batch = one_get_sent \<lparr> b_ops := (b_ops one_get_sent)
               (0 := one_get_op \<lparr> op_response := \<lparr> rs_value_len = 1, rs_status = 0 \<rparr>,
                                   op_value_ptr := Heap [Some 0x76, Some 0] \<rparr>) \<rparr>,
            t_completed = 1, t_error = 0, t_responses_received = 1 \<rparr>"
  apply (simp add: answered_def one_get_submit)
  apply (simp add: received_def response_thread_func_def acquire_idle idle_world_def)
  apply (subst response_loop.simps)
  apply (simp add: one_get_sent_def fresh_batch_fields response_step_def example_client_def
      batch_read_idle response_header_of_def Let_def one_get_op_def set_op_def acquire_idle)
  apply (subst response_loop.simps)
  apply (simp add: one_get_sent_def fresh_batch_fields)
  done

text \<open>
  A batch with one atomic increment by 1; the server answers with status 0 and a value
  of four bytes.
\<close>

definition one_atomic_batch :: "rioc_batch option" where
  "one_atomic_batch = snd (rioc_batch_add_atomic_inc_dec (Some fresh_batch) (Buf [0x6B]) 1 7)"

definition one_atomic_op :: rioc_batch_op where
  "one_atomic_op = \<lparr> op_header = \<lparr> oh_command = RIOC_CMD_ATOMIC_INC_DEC, oh_key_len = 1, oh_value_len = 8,
                                    oh_timestamp = 7 \<rparr>,
                     op_key = key_write (\<lambda>i. 0) [0x6B], op_value_ptr = Staged 0, op_value_offset = 0,
                     op_response = \<lparr> rs_value_len = 0, rs_status = 0 \<rparr> \<rparr>"

lemma one_atomic_batch_eq:
  "one_atomic_batch =
     Some (fresh_batch \<lparr> b_ops := (b_ops fresh_batch)(0 := one_atomic_op),
                         b_value_buffer := buf_write (b_value_buffer fresh_batch) 0 [1, 0, 0, 0, 0, 0, 0, 0],
                         b_count := 1 \<rparr>)"
  by (simp add: one_atomic_batch_def rioc_batch_add_atomic_inc_dec_def batch_add_op_def fresh_batch_fields
        zero_op_def Let_def one_atomic_op_def aligned_offset_def u64_bytes_def)

definition one_atomic_sent :: rioc_batch where
  "one_atomic_sent = fresh_batch \<lparr> b_ops := (b_ops fresh_batch)(0 := one_atomic_op),
       b_value_buffer := buf_write (b_value_buffer fresh_batch) 0 [1, 0, 0, 0, 0, 0, 0, 0], b_count := 1,
       b_batch_header := \<lparr> bh_magic = RIOC_MAGIC, bh_version = RIOC_VERSION, bh_count = 1, bh_flags = 6 \<rparr> \<rparr>"

lemma one_atomic_iovs:
  "batch_iovs one_atomic_sent =
     [[67, 73, 79, 82, 2, 0, 1, 0, 6, 0, 0, 0], [7, 0, 1, 0, 8, 0, 0, 0, 7, 0, 0, 0, 0, 0, 0, 0], [0x6B],
      [1, 0, 0, 0, 0, 0, 0, 0]]"
  by (simp add: one_atomic_sent_def batch_iovs_def op_iovs_def fresh_batch_fields batch_header_bytes_def
        op_header_bytes_def u16_bytes_def u32_bytes_def u64_bytes_def key_write_def one_atomic_op_def
        buf_write_def cell_byte_def upt_rec [of 0] upt_rec [of "Suc _"])

lemma one_atomic_submit:
  "rioc_batch_execute_async idle_world one_atomic_batch =
     Some (Some \<lparr> t_batch = one_atomic_sent, t_completed = 0, t_error = 0, t_responses_received = 0 \<rparr>,
           Some one_atomic_sent,
           idle_world \<lparr> tx_wire := concat (batch_iovs one_atomic_sent), io_calls := 1 \<rparr>)"
proof -
  let ?b = "fresh_batch \<lparr> b_ops := (b_ops fresh_batch)(0 := one_atomic_op),
                         b_value_buffer := buf_write (b_value_buffer fresh_batch) 0 [1, 0, 0, 0, 0, 0, 0, 0],
                         b_count := 1 \<rparr>"
  have "one_atomic_sent = ?b \<lparr> b_batch_header := (b_batch_header ?b) \<lparr> bh_count := of_nat (b_count ?b) \<rparr> \<rparr>"
    by (simp add: one_atomic_sent_def fresh_batch_fields)
  from execute_async_idle [of idle_world ?b one_atomic_sent, OF _ _ _ _ this]
  show ?thesis
    by (simp add: one_atomic_batch_eq one_atomic_iovs idle_world_def fresh_batch_fields example_client_def)
qed

definition one_atomic_tracker :: rioc_batch_tracker where
  "one_atomic_tracker = the (fst (the (rioc_batch_execute_async idle_world one_atomic_batch)))"

lemma one_atomic_tracker_eq:
  "one_atomic_tracker = \<lparr> t_batch = one_atomic_sent, t_completed = 0, t_error = 0, t_responses_received = 0 \<rparr>"
  by (simp add: one_atomic_tracker_def one_atomic_submit)



text \<open>
  A range query from \<open>a\<close> to \<open>z\<close>, in a batch and as a synchronous call; the server
  answers with one entry, key \<open>k\<close> and value \<open>v\<close>.
\<close>

definition one_range_batch :: "rioc_batch option" where
  "one_range_batch = snd (rioc_batch_add_range_query (Some fresh_batch) (Buf [0x61]) (Buf [0x7A]))"

definition one_range_op :: rioc_batch_op where
  "one_range_op = \<lparr> op_header = \<lparr> oh_command = RIOC_CMD_RANGE_QUERY, oh_key_len = 1, oh_value_len = 1,
                                   oh_timestamp = 0 \<rparr>,
                    op_key = key_write (\<lambda>i. 0) [0x61], op_value_ptr = Staged 0, op_value_offset = 0,
                    op_response = \<lparr> rs_value_len = 0, rs_status = 0 \<rparr> \<rparr>"

lemma one_range_batch_eq:
  "one_range_batch =
     Some (fresh_batch \<lparr> b_ops := (b_ops fresh_batch)(0 := one_range_op),
                         b_value_buffer := buf_write (b_value_buffer fresh_batch) 0 [0x7A],
                         b_count := 1 \<rparr>)"
  by (simp add: one_range_batch_def rioc_batch_add_range_query_def fresh_batch_fields
        zero_op_def Let_def one_range_op_def aligned_offset_def)

definition one_range_sent :: rioc_batch where
  "one_range_sent = fresh_batch \<lparr> b_ops := (b_ops fresh_batch)(0 := one_range_op),
       b_value_buffer := buf_write (b_value_buffer fresh_batch) 0 [0x7A], b_count := 1,
       b_batch_header := \<lparr> bh_magic = RIOC_MAGIC, bh_version = RIOC_VERSION, bh_count = 1, bh_flags = 6 \<rparr> \<rparr>"

lemma one_range_iovs:
  "batch_iovs one_range_sent =
     [[67, 73, 79, 82, 2, 0, 1, 0, 6, 0, 0, 0], [6, 0, 1, 0, 1, 0, 0, 0, 0, 0, 0, 0, 0, 0, 0, 0], [0x61], [0x7A]]"
  by (simp add: one_range_sent_def batch_iovs_def op_iovs_def fresh_batch_fields batch_header_bytes_def
        op_header_bytes_def u16_bytes_def u32_bytes_def u64_bytes_def key_write_def one_range_op_def
        buf_write_def cell_byte_def)

lemma one_range_submit:
  "rioc_batch_execute_async idle_world one_range_batch =
     Some (Some \<lparr> t_batch = one_range_sent, t_completed = 0, t_error = 0, t_responses_received = 0 \<rparr>,
           Some one_range_sent,
           idle_world \<lparr> tx_wire := concat (batch_iovs one_range_sent), io_calls := 1 \<rparr>)"
proof -
  let ?b = "fresh_batch \<lparr> b_ops := (b_ops fresh_batch)(0 := one_range_op),
                         b_value_buffer := buf_write (b_value_buffer fresh_batch) 0 [0x7A],
                         b_count := 1 \<rparr>"
  have "one_range_sent = ?b \<lparr> b_batch_header := (b_batch_header ?b) \<lparr> bh_count := of_nat (b_count ?b) \<rparr> \<rparr>"
    by (simp add: one_range_sent_def fresh_batch_fields)
  from execute_async_idle [of idle_world ?b one_range_sent, OF _ _ _ _ this]
  show ?thesis
    by (simp add: one_range_batch_eq one_range_iovs idle_world_def fresh_batch_fields example_client_def)
qed

definition one_range_tracker :: rioc_batch_tracker where
  "one_range_tracker = the (fst (the (rioc_batch_execute_async idle_world one_range_batch)))"

lemma one_range_tracker_eq:
  "one_range_tracker = \<lparr> t_batch = one_range_sent, t_completed = 0, t_error = 0, t_responses_received = 0 \<rparr>"
  by (simp add: one_range_tracker_def one_range_submit)

definition example_entry :: rioc_range_result where
  "example_entry = \<lparr> rr_key = [Some 0x6B, Some 0], rr_key_len = 1, rr_value = [Some 0x76, Some 0],
                     rr_value_len = 1 \<rparr>"

lemma range_one_entry_run:
  "answered one_range_batch ([0, 0, 0, 0, 1, 0, 0, 0] @ [1, 0, 0x6B] @
                                      [1, 0, 0, 0, 0, 0, 0, 0, 0x76]) =
     Some \<lparr> t_batch = one_range_sent \<lparr> b_ops := (b_ops one_range_sent)
               (0 := one_range_op \<lparr> op_response := \<lparr> rs_value_len = 1, rs_status = 0 \<rparr>,
                                     op_value_ptr := Results [example_entry] \<rparr>) \<rparr>,
            t_completed = 1, t_error = 0, t_responses_received = 1 \<rparr>"
  apply (simp add: answered_def one_range_submit)
  apply (simp add: received_def response_thread_func_def acquire_idle idle_world_def)
  apply (subst response_loop.simps)
  apply (simp add: one_range_sent_def fresh_batch_fields response_step_def example_client_def
      batch_read_idle response_header_of_def Let_def one_range_op_def set_op_def acquire_idle
      example_entry_def)
  apply (subst response_loop.simps)
  apply (simp add: one_range_sent_def fresh_batch_fields)
  done

lemma sync_read_idle:
  "cl_tls c = None \<Longrightarrow> rx_plan w = [] \<Longrightarrow> rx_wire w \<noteq> [] \<Longrightarrow>
     sync_read c w len = (int (length (take len (rx_wire w))), take len (rx_wire w),
                          w \<lparr> rx_wire := drop len (rx_wire w), io_calls := io_calls w + 1 \<rparr>)"
  by (simp add: sync_read_def sys_recv_idle)

lemma range_one_entry_sync:
  "rioc_range_query (Some example_client)
       (idle_world \<lparr> rx_wire := [0, 0, 0, 0, 1, 0, 0, 0] @ [1, 0, 0x6B] @ [1, 0, 0, 0, 0, 0, 0, 0, 0x76] \<rparr>)
       (Buf [0x61]) (Buf [0x7A]) True True =
     Some (Ret (RIOC_SUCCESS, Some [example_entry], 1),
           idle_world \<lparr> tx_wire := [67, 73, 79, 82, 2, 0, 1, 0, 6, 0, 0, 0,
                                     6, 0, 1, 0, 1, 0, 0, 0, 0, 0, 0, 0, 0, 0, 0, 0, 0x61, 0x7A],
                        io_calls := 6 \<rparr>)"
  by (simp add: rioc_range_query_def Let_def example_client_def writev_all_def writev_small_loop_idle
        idle_world_def batch_header_bytes_def op_header_bytes_def u16_bytes_def u32_bytes_def u64_bytes_def
        range_query_recv_def sync_read_idle response_header_of_def acquire_idle example_entry_def)

text \<open>A synchronous get that is answered with a value of one byte.\<close>

lemma get_found_sync:
  "rioc_get (Some example_client) (idle_world \<lparr> rx_wire := [0, 0, 0, 0, 1, 0, 0, 0, 0x76] \<rparr>)
       (Buf [0x6B]) True True =
     Some (RIOC_SUCCESS, Some (Heap [Some 0x76, Some 0]), Some 1,
           idle_world \<lparr> tx_wire := [67, 73, 79, 82, 2, 0, 1, 0, 6, 0, 0, 0,
                                     1, 0, 1, 0, 0, 0, 0, 0, 0, 0, 0, 0, 0, 0, 0, 0, 0x6B],
                        io_calls := 3 \<rparr>)"
  by (simp add: rioc_get_def send_op_def Let_def example_client_def send_op_plain_loop_idle idle_world_def
        batch_header_bytes_def op_header_bytes_def u16_bytes_def u32_bytes_def u64_bytes_def
        recv_response_def sync_read_idle response_header_of_def acquire_idle)





section \<open>The claims\<close>

text \<open>
  C8. The claim: every add operation whose arguments violate a limit (a key longer than
  512 bytes, an insert value over the value limit, a batch that already holds 128
  operations) returns \<open>ParamError\<close> and leaves the batch unchanged. \<open>batch_add_op\<close>
  tests the value length only when the value pointer is not \<open>NULL\<close>, and against
  \<open>RIOC_MAX_VALUE_SIZE\<close> = 102400: an insert with a \<open>NULL\<close> value and a length of
  200000, and an insert with a value of 100001 bytes, both return \<open>RIOC_SUCCESS\<close> and
  leave a batch of one operation.
\<close>

theorem add_limit_violation_counterexample:
  "fst (rioc_batch_add_insert (Some fresh_batch) (Buf [0x6B]) (NullPtr 200000) 7) = RIOC_SUCCESS \<and>
   b_count (the (snd (rioc_batch_add_insert (Some fresh_batch) (Buf [0x6B]) (NullPtr 200000) 7))) = 1 \<and>
   fst (rioc_batch_add_insert (Some fresh_batch) (Buf [0x6B]) (Buf (replicate 100001 0)) 7) = RIOC_SUCCESS \<and>
   b_count (the (snd (rioc_batch_add_insert (Some fresh_batch) (Buf [0x6B]) (Buf (replicate 100001 0)) 7))) = 1"
  by (simp add: rioc_batch_add_insert_def batch_add_op_def fresh_batch_fields Let_def)



text \<open>
  C9. The claim: \<open>result(i)\<close> returns \<open>IoError\<close> for every index above the high-water
  mark, indices at or beyond the operation count included. In the code the index is
  compared with the count first: on the tracker of a submitted one-operation batch
  with no response received yet, index 1 gives \<open>RIOC_ERR_PARAM\<close>.
\<close>

theorem result_beyond_count_counterexample:
  "t_responses_received one_get_tracker = 0 \<and> b_count (t_batch one_get_tracker) = 1 \<and>
   rioc_batch_get_response_async (Some one_get_tracker) 1 True True = (RIOC_ERR_PARAM, None)"
  by (simp add: one_get_tracker_eq one_get_sent_def rioc_batch_get_response_async_def)

text \<open>
  C9, as amended: for a tracker and out-parameters that are not \<open>NULL\<close>, an index
  at or above the number of responses received and below the operation count gives
  \<open>RIOC_ERR_IO\<close> and writes nothing; an index at or beyond the operation count gives
  \<open>RIOC_ERR_PARAM\<close>.
\<close>

theorem result_not_yet_available:
  "(t_responses_received t \<le> i \<and> i < b_count (t_batch t) \<longrightarrow>
      rioc_batch_get_response_async (Some t) i True True = (RIOC_ERR_IO, None)) \<and>
   (b_count (t_batch t) \<le> i \<longrightarrow>
      rioc_batch_get_response_async (Some t) i True True = (RIOC_ERR_PARAM, None))"
  by (simp add: rioc_batch_get_response_async_def)

theorem result_not_yet_available_witness:
  "rioc_batch_get_response_async (Some one_get_tracker) 0 True True = (RIOC_ERR_IO, None) \<and>
   rioc_batch_get_response_async (Some one_get_tracker) 5 True True = (RIOC_ERR_PARAM, None)"
  using result_not_yet_available [of one_get_tracker 0] result_not_yet_available [of one_get_tracker 5]
  by (simp add: one_get_tracker_eq one_get_sent_def)

text \<open>
  C1. The claim: an insert with a value of more than 100000 bytes returns
  \<open>ParamError\<close> before any wire activity, so with 100001 bytes. The limit in the code
  is \<open>RIOC_MAX_VALUE_SIZE\<close> = 102400: a value of 100001 bytes is added to a batch with
  \<open>RIOC_SUCCESS\<close>, and the synchronous insert sends all 100030 bytes of the request
  (and fails with \<open>RIOC_ERR_IO\<close> here only because no response is waiting).
\<close>

theorem insert_100001_counterexample:
  "fst (rioc_batch_add_insert (Some fresh_batch) (Buf [0x6B]) (Buf (replicate 100001 0)) 1) = RIOC_SUCCESS \<and>
   fst (the (rioc_insert (Some example_client) idle_world (Buf [0x6B]) (Buf (replicate 100001 0)) 1)) =
     RIOC_ERR_IO \<and>
   length (tx_wire (snd (the (rioc_insert (Some example_client) idle_world (Buf [0x6B])
                                 (Buf (replicate 100001 0)) 1)))) = 100030"
  by (simp add: insert_100001_add insert_100001_sync)

text \<open>
  C1, as amended: an insert (\<open>rioc_insert\<close> or \<open>rioc_batch_add_insert\<close>) with a value
  of more than 102400 bytes returns \<open>RIOC_ERR_PARAM\<close>; the world after \<open>rioc_insert\<close>
  is the world before it (no call was made, no byte sent), and the batch is unchanged.
\<close>

theorem oversize_insert_rejected:
  "RIOC_MAX_VALUE_SIZE < length v \<Longrightarrow>
     rioc_insert client w key (Buf v) ts = Some (RIOC_ERR_PARAM, w) \<and>
     rioc_batch_add_insert batch key (Buf v) ts = (RIOC_ERR_PARAM, batch)"
  by (simp add: rioc_insert_def rioc_batch_add_insert_def batch_add_op_def split: option.splits)

theorem oversize_insert_rejected_witness:
  "rioc_insert (Some example_client) idle_world (Buf [0x6B]) (Buf (replicate 102401 0)) 1 =
     Some (RIOC_ERR_PARAM, idle_world) \<and>
   rioc_batch_add_insert (Some fresh_batch) (Buf [0x6B]) (Buf (replicate 102401 0)) 1 =
     (RIOC_ERR_PARAM, Some fresh_batch)"
  using oversize_insert_rejected [of "replicate 102401 0" "Some example_client" idle_world "Buf [0x6B]" 1
          "Some fresh_batch"]
  by simp

text \<open>
  C5. The claim: the receive primitive loops until exactly \<open>n\<close> bytes have arrived or
  a hard error occurs, and retries an interrupted call and a short read. \<open>recv_all\<close>
  does so only for more than 4096 bytes. For 4096 bytes or fewer it makes one \<open>recv\<close>
  call and returns what that call returned: on a read of the 8 header bytes, an
  interrupted call (\<open>EINTR\<close>) gives -1 and a short read of 3 bytes gives 3, while a read
  of 5000 bytes that meets the same two events returns 5000.
\<close>

theorem recv_all_small_read_not_retried:
  "fst (recv_all (idle_world \<lparr> rx_wire := [0, 0, 0, 0, 0, 0, 0, 0], rx_plan := [Fail RIOC_EINTR] \<rparr>) 8) = - 1 \<and>
   fst (recv_all (idle_world \<lparr> rx_wire := [0, 0, 0, 0, 0, 0, 0, 0], rx_plan := [Xfer 3] \<rparr>) 8) = 3 \<and>
   fst (recv_all (idle_world \<lparr> rx_wire := replicate 5000 0, rx_plan := [Fail RIOC_EINTR, Xfer 3] \<rparr>) 5000) = 5000"
  by (simp add: recv_all_def sys_recv_def idle_world_def recv_all_loop.simps)

text \<open>
  C7. With a connected TLS context and a transport that does not fail for good (every
  scripted \<open>SSL_write\<close> either takes at least one byte or asks to be called again),
  the byte stream that \<open>rioc_tls_writev\<close> produces for an iovec array is the
  concatenation of its entries in order, and the call returns its length (the count is
  a C \<open>int\<close>, hence the bound). \<open>writev_all\<close> on a plain socket, whenever it returns
  a count and not -1, has delivered the same concatenation. Each \<open>SSL_write\<close> is handed
  at most \<open>RIOC_TLS_CHUNK_SIZE\<close> = 16000 bytes (\<open>tls_write_loop\<close>).
\<close>

theorem tls_writev_stream_is_concatenation:
  "tls_ssl t \<Longrightarrow> list_all ssl_benign (tx_plan w) \<Longrightarrow>
     tx_wire (snd (rioc_tls_writev (Some t) w (Some iov))) = tx_wire w @ concat iov \<and>
     (iov \<noteq> [] \<and> length (concat iov) < 2 ^ 31 \<longrightarrow>
        fst (rioc_tls_writev (Some t) w (Some iov)) = int (length (concat iov))) \<and>
     (\<forall>r p'. writev_all p iov = Some (r, p') \<and> 0 \<le> r \<longrightarrow> tx_wire p' = tx_wire p @ concat iov)"
proof (intro conjI allI impI)
  assume t: "tls_ssl t" and b: "list_all ssl_benign (tx_plan w)"
  obtain r w' where run: "rioc_tls_writev (Some t) w (Some iov) = (r, w')"
    by (cases "rioc_tls_writev (Some t) w (Some iov)") auto
  show "tx_wire (snd (rioc_tls_writev (Some t) w (Some iov))) = tx_wire w @ concat iov"
  proof (cases "iov = []")
    case True
    then show ?thesis by (simp add: rioc_tls_writev_def)
  next
    case False
    from rioc_tls_writev_benign [OF t b False] run have "0 \<le> r" by simp
    with rioc_tls_writev_wire [OF run] run show ?thesis by simp
  qed
  show "fst (rioc_tls_writev (Some t) w (Some iov)) = int (length (concat iov))"
    if "iov \<noteq> [] \<and> length (concat iov) < 2 ^ 31"
    using rioc_tls_writev_benign [OF t b] that by simp
  show "tx_wire p' = tx_wire p @ concat iov" if "writev_all p iov = Some (r, p') \<and> 0 \<le> r" for r p'
    using writev_all_wire [of p iov r p'] that by simp
qed

theorem tls_writev_stream_is_concatenation_witness:
  "tx_wire (snd (rioc_tls_writev (Some example_tls)
                   (idle_world \<lparr> tx_plan := [Fail SSL_ERROR_WANT_WRITE, Xfer 5] \<rparr>)
                   (Some [[1, 2, 3], [4, 5, 6, 7], [], [8]]))) = [1, 2, 3, 4, 5, 6, 7, 8] \<and>
   fst (rioc_tls_writev (Some example_tls)
          (idle_world \<lparr> tx_plan := [Fail SSL_ERROR_WANT_WRITE, Xfer 5] \<rparr>)
          (Some [[1, 2, 3], [4, 5, 6, 7], [], [8]])) = 8 \<and>
   tx_wire (snd (the (writev_all idle_world [[1, 2, 3], [4, 5, 6, 7], [], [8]]))) = [1, 2, 3, 4, 5, 6, 7, 8]"
proof -
  have plain: "writev_all idle_world [[1, 2, 3], [4, 5, 6, 7], [], [8]] =
                 Some (8, idle_world \<lparr> tx_wire := [1, 2, 3, 4, 5, 6, 7, 8], io_calls := 1 \<rparr>)"
    by (simp add: writev_all_def Let_def writev_small_loop_idle idle_world_def)
  note tls_writev_stream_is_concatenation
         [of example_tls "idle_world \<lparr> tx_plan := [Fail SSL_ERROR_WANT_WRITE, Xfer 5] \<rparr>"
             "[[1, 2, 3], [4, 5, 6, 7], [], [8]]" idle_world]
  moreover have "tx_wire idle_world = []" by (simp add: idle_world_def)
  ultimately show ?thesis
    by (simp add: example_tls_def plain)
qed

text \<open>
  C6. Every transmission of the client begins with a batch header with magic
  \<open>0x524F4943\<close>, version 2, flags \<open>0x6\<close> and the number of operations as count:
  the bytes that a successful \<open>send_op\<close> (the send of every single operation) adds to
  the stream, with count 1; the bytes that \<open>rioc_batch_execute_async\<close> adds for a
  batch made by the builder when it returns a tracker, with the batch's count, which
  the 16-bit field holds, followed by that many operations; and the bytes that
  \<open>rioc_range_query\<close> has added whenever it returns anything but \<open>RIOC_ERR_IO\<close> or
  \<open>RIOC_ERR_PARAM\<close>, with count 1. The last conjunct spells the header out in bytes.
\<close>

theorem transmission_begins_with_batch_header:
  "(send_op c w command key val timestamp = Some (RIOC_SUCCESS, w1) \<longrightarrow>
      tx_wire w1 = tx_wire w @
        batch_header_bytes \<lparr> bh_magic = 0x524F4943, bh_version = 2, bh_count = 1, bh_flags = 6 \<rparr> @
        op_header_bytes \<lparr> oh_command = command, oh_key_len = of_nat (cbuf_len key),
                          oh_value_len = of_nat (cbuf_len val), oh_timestamp = timestamp \<rparr> @
        cbuf_bytes key @ (if \<not> cbuf_null val \<and> cbuf_len val > 0 then cbuf_bytes val else [])) \<and>
   (assembled b \<and> rioc_batch_execute_async w (Some b) = Some (Some tr, b', w2) \<longrightarrow>
      tx_wire w2 = tx_wire w @
        batch_header_bytes \<lparr> bh_magic = 0x524F4943, bh_version = 2, bh_count = of_nat (b_count b),
                             bh_flags = 6 \<rparr> @
        concat (concat (map (\<lambda>i. op_iovs (b_value_buffer b) (b_ops b i)) [0..<b_count b])) \<and>
      unat (of_nat (b_count b) :: 16 word) = b_count b) \<and>
   (rioc_range_query (Some c) w start_key end_key ro co = Some (Ret (r, res, n), w3) \<and>
      r \<noteq> RIOC_ERR_IO \<and> r \<noteq> RIOC_ERR_PARAM \<longrightarrow>
      tx_wire w3 = tx_wire w @
        batch_header_bytes \<lparr> bh_magic = 0x524F4943, bh_version = 2, bh_count = 1, bh_flags = 6 \<rparr> @
        op_header_bytes \<lparr> oh_command = RIOC_CMD_RANGE_QUERY, oh_key_len = of_nat (cbuf_len start_key),
                          oh_value_len = of_nat (cbuf_len end_key), oh_timestamp = 0 \<rparr> @
        cbuf_bytes start_key @ cbuf_bytes end_key) \<and>
   batch_header_bytes \<lparr> bh_magic = 0x524F4943, bh_version = 2, bh_count = cnt, bh_flags = 6 \<rparr> =
     [0x43, 0x49, 0x4F, 0x52, 2, 0] @ u16_bytes cnt @ [6, 0, 0, 0]"
proof (intro conjI impI)
  show "tx_wire w1 = tx_wire w @
        batch_header_bytes \<lparr> bh_magic = 0x524F4943, bh_version = 2, bh_count = 1, bh_flags = 6 \<rparr> @
        op_header_bytes \<lparr> oh_command = command, oh_key_len = of_nat (cbuf_len key),
                          oh_value_len = of_nat (cbuf_len val), oh_timestamp = timestamp \<rparr> @
        cbuf_bytes key @ (if \<not> cbuf_null val \<and> cbuf_len val > 0 then cbuf_bytes val else [])"
    if "send_op c w command key val timestamp = Some (RIOC_SUCCESS, w1)"
    using send_op_wire [OF that] .
next
  assume a: "assembled b \<and> rioc_batch_execute_async w (Some b) = Some (Some tr, b', w2)"
  from assembled_header [of b] a
  have h: "b_batch_header b = \<lparr> bh_magic = RIOC_MAGIC, bh_version = RIOC_VERSION, bh_count = 0, bh_flags = 6 \<rparr>"
    and c: "b_count b \<le> RIOC_MAX_BATCH_SIZE" by auto
  from execute_async_wire [of w b tr b' w2] a h
  show "tx_wire w2 = tx_wire w @
        batch_header_bytes \<lparr> bh_magic = 0x524F4943, bh_version = 2, bh_count = of_nat (b_count b),
                             bh_flags = 6 \<rparr> @
        concat (concat (map (\<lambda>i. op_iovs (b_value_buffer b) (b_ops b i)) [0..<b_count b]))"
    by (simp add: batch_iovs_def)
  from c show "unat (of_nat (b_count b) :: 16 word) = b_count b"
    by (simp add: unat_of_nat)
next
  show "tx_wire w3 = tx_wire w @
        batch_header_bytes \<lparr> bh_magic = 0x524F4943, bh_version = 2, bh_count = 1, bh_flags = 6 \<rparr> @
        op_header_bytes \<lparr> oh_command = RIOC_CMD_RANGE_QUERY, oh_key_len = of_nat (cbuf_len start_key),
                          oh_value_len = of_nat (cbuf_len end_key), oh_timestamp = 0 \<rparr> @
        cbuf_bytes start_key @ cbuf_bytes end_key"
    if "rioc_range_query (Some c) w start_key end_key ro co = Some (Ret (r, res, n), w3) \<and>
        r \<noteq> RIOC_ERR_IO \<and> r \<noteq> RIOC_ERR_PARAM"
    using range_query_wire [of c w start_key end_key ro co r res n w3] that by simp
next
  show "batch_header_bytes \<lparr> bh_magic = 0x524F4943, bh_version = 2, bh_count = cnt, bh_flags = 6 \<rparr> =
     [0x43, 0x49, 0x4F, 0x52, 2, 0] @ u16_bytes cnt @ [6, 0, 0, 0]"
    by (simp add: batch_header_bytes_def u32_bytes_def u16_bytes_def)
qed

theorem transmission_begins_with_batch_header_witness:
  "tx_wire (snd (the (send_op example_client idle_world RIOC_CMD_GET (Buf [0x6B]) (NullPtr 0) 0))) =
     [0x43, 0x49, 0x4F, 0x52, 2, 0, 1, 0, 6, 0, 0, 0] @
     [1, 0, 1, 0, 0, 0, 0, 0, 0, 0, 0, 0, 0, 0, 0, 0, 0x6B] \<and>
   tx_wire (snd (snd (the (rioc_batch_execute_async idle_world one_get_batch)))) =
     [0x43, 0x49, 0x4F, 0x52, 2, 0, 1, 0, 6, 0, 0, 0] @
     [1, 0, 1, 0, 0, 0, 0, 0, 0, 0, 0, 0, 0, 0, 0, 0, 0x6B] \<and>
   tx_wire (snd (the (rioc_range_query (Some example_client)
                        (idle_world \<lparr> rx_wire := [0, 0, 0, 0, 0, 0, 0, 0] \<rparr>)
                        (Buf [0x61]) (Buf [0x7A]) True True))) =
     [0x43, 0x49, 0x4F, 0x52, 2, 0, 1, 0, 6, 0, 0, 0] @
     [6, 0, 1, 0, 1, 0, 0, 0, 0, 0, 0, 0, 0, 0, 0, 0, 0x61, 0x7A]"
proof -
  have sub: "rioc_batch_execute_async idle_world (Some (the one_get_batch)) =
               Some (Some \<lparr> t_batch = one_get_sent, t_completed = 0, t_error = 0, t_responses_received = 0 \<rparr>,
                     Some one_get_sent,
                     idle_world \<lparr> tx_wire := concat (batch_iovs one_get_sent), io_calls := 1 \<rparr>)"
    using one_get_submit by (simp add: one_get_batch_eq)
  have ok: "RIOC_SUCCESS \<noteq> RIOC_ERR_IO \<and> RIOC_SUCCESS \<noteq> RIOC_ERR_PARAM" by simp
  note t1 = transmission_begins_with_batch_header
              [THEN conjunct1, rule_format, OF get_request_sent]
  note t2 = transmission_begins_with_batch_header
              [THEN conjunct2, THEN conjunct1, rule_format, OF conjI [OF one_get_assembled sub]]
  note t3 = transmission_begins_with_batch_header
              [THEN conjunct2, THEN conjunct2, THEN conjunct1, rule_format,
               OF conjI [OF range_request_answered ok]]
  have w0: "tx_wire idle_world = []" "b_count (the one_get_batch) = 1"
    "b_value_buffer (the one_get_batch) = b_value_buffer fresh_batch"
    "b_ops (the one_get_batch) 0 = one_get_op"
    by (simp_all add: idle_world_def one_get_batch_eq)
  have ops: "op_iovs vb one_get_op = [[1, 0, 1, 0, 0, 0, 0, 0, 0, 0, 0, 0, 0, 0, 0, 0], [0x6B]]" for vb
    by (simp add: op_iovs_def one_get_op_def op_header_bytes_def u16_bytes_def u32_bytes_def u64_bytes_def
          key_write_def)
  from t1 t2 t3 show ?thesis
    by (simp add: get_request_sent sub one_get_submit range_request_answered w0 ops
          batch_header_bytes_def u16_bytes_def u32_bytes_def op_header_bytes_def u64_bytes_def)
qed




text \<open>
  C3. The claim: below the high-water mark, a slot whose status is not \<open>Success\<close>
  gives no value pointer and length zero, whatever the operation. The response thread
  never clears \<open>value_ptr\<close> and reads a value whenever a get announces one, and
  \<open>rioc_batch_get_response_async\<close> returns pointer and length without looking at the
  status. An insert that the server refuses with status -5 (and \<open>value_len\<close> 0) returns
  the pointer to its own request value, staged at offset 0 of the value buffer, with
  length 0; a get answered with status -6 and a value of one byte returns that value.
\<close>

theorem failed_slot_payload_counterexample:
  "rioc_batch_get_response_async (answered one_insert_batch [0xFB, 0xFF, 0xFF, 0xFF, 0, 0, 0, 0]) 0 True True =
     (RIOC_ERR_DEVICE, Some (Staged 0, 0)) \<and>
   rioc_batch_get_response_async (answered one_get_batch [0xFA, 0xFF, 0xFF, 0xFF, 1, 0, 0, 0, 0x76]) 0 True True =
     (RIOC_ERR_NOENT, Some (Heap [Some 0x76, Some 0], 1))"
  by (simp add: insert_refused_run get_error_with_payload_run rioc_batch_get_response_async_def
        one_insert_sent_def one_get_sent_def one_insert_op_def one_get_op_def)

text \<open>
  C3, as amended: for a batch built by the add functions and submitted, and an index
  below the number of responses received, if the response header announced
  \<open>value_len\<close> 0 (as the responses that carry an error status do), the length
  returned is 0 and the pointer returned is the one the operation was submitted with:
  \<open>NULL\<close> for a get and for a delete, whatever the status. (For an insert, an atomic
  operation and a range query with a non-empty value it is the pointer to the staged
  request value.)
\<close>

theorem failed_slot_payload:
  assumes "assembled b"
    and "rioc_batch_execute_async w (Some b) = Some (Some t0, b', w')"
    and "receiving t0 t"
    and "rioc_batch_get_response_async (Some t) i True True = (st, Some (v, 0))"
  shows "v = op_value_ptr (b_ops b i) \<and>
         (oh_command (op_header (b_ops b i)) = RIOC_CMD_GET \<or>
          oh_command (op_header (b_ops b i)) = RIOC_CMD_DELETE \<longrightarrow> v = Null)"
proof -
  from execute_async_wire [OF assms(2)]
  have t0: "t_responses_received t0 = 0" "b_ops (t_batch t0) = b_ops b" "b_count (t_batch t0) = b_count b"
    by simp_all
  from received_slot [OF assms(3) t0(1) assms(4)] t0
  have "i < b_count b" "v = op_value_ptr (b_ops b i)" by (simp_all add: Let_def)
  with assembled_header [OF assms(1)] show ?thesis by simp
qed

theorem failed_slot_payload_witness:
  "rioc_batch_get_response_async (answered one_get_batch [0xFA, 0xFF, 0xFF, 0xFF, 0, 0, 0, 0]) 0 True True =
     (RIOC_ERR_NOENT, Some (Null, 0)) \<and>
   op_value_ptr (b_ops (the one_get_batch) 0) = Null \<and>
   oh_command (op_header (b_ops (the one_get_batch) 0)) = RIOC_CMD_GET"
proof -
  let ?t = "\<lparr> t_batch = one_get_sent \<lparr> b_ops := (b_ops one_get_sent)
               (0 := one_get_op \<lparr> op_response := \<lparr> rs_value_len = 0, rs_status = - 6 \<rparr> \<rparr>) \<rparr>,
            t_completed = 1, t_error = 0, t_responses_received = 1 \<rparr>"
  have sub: "rioc_batch_execute_async idle_world (Some (the one_get_batch)) =
               Some (Some \<lparr> t_batch = one_get_sent, t_completed = 0, t_error = 0, t_responses_received = 0 \<rparr>,
                     Some one_get_sent,
                     idle_world \<lparr> tx_wire := concat (batch_iovs one_get_sent), io_calls := 1 \<rparr>)"
    using one_get_submit by (simp add: one_get_batch_eq)
  have ans: "answered (Some (the one_get_batch)) [0xFA, 0xFF, 0xFF, 0xFF, 0, 0, 0, 0] = Some ?t"
    using get_not_found_run by (simp add: one_get_batch_eq)
  have res: "rioc_batch_get_response_async (Some ?t) 0 True True = (RIOC_ERR_NOENT, Some (Null, 0))"
    by (simp add: rioc_batch_get_response_async_def one_get_sent_def one_get_op_def)
  have g1: "rioc_batch_get_response_async (answered one_get_batch [0xFA, 0xFF, 0xFF, 0xFF, 0, 0, 0, 0])
              0 True True = (RIOC_ERR_NOENT, Some (Null, 0))"
    unfolding get_not_found_run by (rule res)
  have g3: "oh_command (op_header (b_ops (the one_get_batch) 0)) = RIOC_CMD_GET"
    by (simp add: one_get_batch_eq one_get_op_def)
  from failed_slot_payload [OF one_get_assembled sub answered_receiving [OF sub ans] res] g1 g3
  show ?thesis by simp
qed




end
